theory Spec2Isabelle
  imports Main "HOL-Library.Word" "HOL-Library.List_Lexorder"
begin

unbundle bit_operations_syntax

section \<open>The JavaScript values the validator works on\<close>

text \<open>
  The program is \<^verbatim>\<open>src/app/utils/signature-validator.ts\<close>. Its inputs are the
  values \<^verbatim>\<open>JSON.parse\<close> and TypeScript callers hand to it: strings, numbers,
  booleans, \<^verbatim>\<open>null\<close>, \<^verbatim>\<open>undefined\<close>, arrays and plain objects.

  A JavaScript string is a sequence of UTF-16 code units, and nothing forces surrogates
  to come in pairs, so a string is a list of 16-bit words.
\<close>

type_synonym jsstring = "16 word list"

type_synonym bytes = "8 word list"

definition js :: "string \<Rightarrow> jsstring" where
  "js s = map of_char s"

text \<open>The exceptions the runtime functions used by the program can raise.\<close>

datatype exn = Error | URIError | TypeError | RangeError

text \<open>
  A number is an IEEE double in the source. A number that reaches the program is given
  by what \<^verbatim>\<open>Number.prototype.toString\<close> prints for it: \<open>Dec m e\<close> is the double
  nearest to \<open>m * 10 ^ e\<close>, written with the fewest digits. The arithmetic of
  \<^verbatim>\<open>_checkTimestamp\<close> is done on the exact values of doubles (type \<open>double\<close> below),
  with the rounding of IEEE 754.
\<close>

datatype jsnum = NaN | PosInf | NegInf | Dec int int

datatype jsval =
    JNull
  | JUndefined
  | JBool bool
  | JNum jsnum
  | JStr jsstring
  | JArr "jsval list"
  | JObj "(jsstring \<times> jsval) list"

text \<open>
  An object is the list of its own enumerable properties in enumeration order. A
  JavaScript object has no key twice; where a property needs that, it says
  \<open>distinct (map fst kvs)\<close>.
\<close>

subsection \<open>Strings: UTF-16, UTF-8, whitespace\<close>

definition is_high :: "16 word \<Rightarrow> bool" where
  "is_high c \<longleftrightarrow> 0xD800 \<le> c \<and> c \<le> 0xDBFF"

definition is_low :: "16 word \<Rightarrow> bool" where
  "is_low c \<longleftrightarrow> 0xDC00 \<le> c \<and> c \<le> 0xDFFF"

definition pair_code_point :: "16 word \<Rightarrow> 16 word \<Rightarrow> nat" where
  "pair_code_point c d = 0x10000 + (unat c - 0xD800) * 0x400 + (unat d - 0xDC00)"

definition utf8_bytes :: "nat \<Rightarrow> bytes" where
  "utf8_bytes cp =
     (if cp < 0x80 then [of_nat cp]
      else if cp < 0x800 then [of_nat (0xC0 + cp div 64), of_nat (0x80 + cp mod 64)]
      else if cp < 0x10000 then
        [of_nat (0xE0 + cp div 4096), of_nat (0x80 + (cp div 64) mod 64),
         of_nat (0x80 + cp mod 64)]
      else
        [of_nat (0xF0 + cp div 262144), of_nat (0x80 + (cp div 4096) mod 64),
         of_nat (0x80 + (cp div 64) mod 64), of_nat (0x80 + cp mod 64)])"

text \<open>
  \<^verbatim>\<open>Buffer.from(s)\<close> and the string arguments of \<^verbatim>\<open>createHmac\<close> and
  \<^verbatim>\<open>update\<close>: the UTF-8 encoding of the string, an unpaired surrogate encoded as
  U+FFFD.
\<close>

fun Buffer_from :: "jsstring \<Rightarrow> bytes" where
  "Buffer_from [] = []"
| "Buffer_from [c] =
     (if is_high c \<or> is_low c then utf8_bytes 0xFFFD else utf8_bytes (unat c))"
| "Buffer_from (c # d # cs) =
     (if is_high c then
        (if is_low d then utf8_bytes (pair_code_point c d) @ Buffer_from cs
         else utf8_bytes 0xFFFD @ Buffer_from (d # cs))
      else if is_low c then utf8_bytes 0xFFFD @ Buffer_from (d # cs)
      else utf8_bytes (unat c) @ Buffer_from (d # cs))"

definition hex_upper :: "nat \<Rightarrow> 16 word" where
  "hex_upper n = (if n < 10 then of_nat (48 + n) else of_nat (55 + n))"

definition hex_lower :: "nat \<Rightarrow> 16 word" where
  "hex_lower n = (if n < 10 then of_nat (48 + n) else of_nat (87 + n))"

definition percent_octet :: "8 word \<Rightarrow> jsstring" where
  "percent_octet b = [0x25, hex_upper (unat b div 16), hex_upper (unat b mod 16)]"

text \<open>
  The characters \<^verbatim>\<open>encodeURIComponent\<close> leaves alone: letters, digits and
  \<^verbatim>\<open>- _ . ! ~ * ' ( )\<close>.
\<close>

definition uri_unreserved :: "16 word \<Rightarrow> bool" where
  "uri_unreserved c \<longleftrightarrow>
     (0x41 \<le> c \<and> c \<le> 0x5A) \<or> (0x61 \<le> c \<and> c \<le> 0x7A) \<or> (0x30 \<le> c \<and> c \<le> 0x39) \<or>
     c \<in> {0x2D, 0x5F, 0x2E, 0x21, 0x7E, 0x2A, 0x27, 0x28, 0x29}"

definition prepend :: "jsstring \<Rightarrow> exn + jsstring \<Rightarrow> exn + jsstring" where
  "prepend s r = (case r of Inl e \<Rightarrow> Inl e | Inr t \<Rightarrow> Inr (s @ t))"

text \<open>
  \<^verbatim>\<open>encodeURIComponent\<close>: every other code point is replaced by the percent-encoded
  octets of its UTF-8 encoding, and an unpaired surrogate raises \<^verbatim>\<open>URIError\<close>.
\<close>

fun encodeURIComponent :: "jsstring \<Rightarrow> exn + jsstring" where
  "encodeURIComponent [] = Inr []"
| "encodeURIComponent (c # cs) =
     (if uri_unreserved c then prepend [c] (encodeURIComponent cs)
      else if is_low c then Inl URIError
      else if is_high c then
        (case cs of
           [] \<Rightarrow> Inl URIError
         | d # ds \<Rightarrow>
             if is_low d
             then prepend (concat (map percent_octet (utf8_bytes (pair_code_point c d))))
                    (encodeURIComponent ds)
             else Inl URIError)
      else prepend (concat (map percent_octet (utf8_bytes (unat c)))) (encodeURIComponent cs))"

text \<open>
  The code units \<^verbatim>\<open>String.prototype.trim\<close> and \<^verbatim>\<open>parseInt\<close> strip: the
  WhiteSpace and LineTerminator productions of ECMAScript.
\<close>

definition js_whitespace :: "16 word \<Rightarrow> bool" where
  "js_whitespace c \<longleftrightarrow>
     c \<in> {0x09, 0x0A, 0x0B, 0x0C, 0x0D, 0x20, 0xA0, 0x1680, 0x2028, 0x2029, 0x202F, 0x205F,
          0x3000, 0xFEFF} \<or> (0x2000 \<le> c \<and> c \<le> 0x200A)"

definition trim :: "jsstring \<Rightarrow> jsstring" where
  "trim s = rev (dropWhile js_whitespace (rev (dropWhile js_whitespace s)))"

subsection \<open>Numbers\<close>

fun digits10 :: "nat \<Rightarrow> nat list" where
  "digits10 n = (if n < 10 then [n] else digits10 (n div 10) @ [n mod 10])"

declare digits10.simps [simp del]

definition digit_chars :: "nat list \<Rightarrow> jsstring" where
  "digit_chars ds = map (\<lambda>d. of_nat (48 + d)) ds"

text \<open>
  \<^verbatim>\<open>Number::toString\<close> of ECMAScript for a positive decimal: \<open>ds\<close> are the digits
  without trailing zeros, \<open>k\<close> their number, and the value is \<open>0.ds * 10 ^ n\<close>.
\<close>

definition positive_to_string :: "nat \<Rightarrow> int \<Rightarrow> jsstring" where
  "positive_to_string m e =
     (let ds0 = digits10 m;
          z = length (takeWhile (\<lambda>d. d = 0) (rev ds0));
          ds = take (length ds0 - z) ds0;
          k = int (length ds);
          n = k + e + int z
      in if k \<le> n \<and> n \<le> 21 then digit_chars ds @ replicate (nat (n - k)) 0x30
         else if 0 < n \<and> n \<le> 21 then
           digit_chars (take (nat n) ds) @ [0x2E] @ digit_chars (drop (nat n) ds)
         else if - 6 < n \<and> n \<le> 0 then
           [0x30, 0x2E] @ replicate (nat (- n)) 0x30 @ digit_chars ds
         else
           (let x = digit_chars (digits10 (nat \<bar>n - 1\<bar>));
                sgn = (if n - 1 < 0 then 0x2D else 0x2B)
            in if k = 1 then digit_chars ds @ [0x65, sgn] @ x
               else digit_chars (take 1 ds) @ [0x2E] @ digit_chars (drop 1 ds) @ [0x65, sgn] @ x))"

definition number_to_string :: "jsnum \<Rightarrow> jsstring" where
  "number_to_string x =
     (case x of
        NaN \<Rightarrow> js ''NaN''
      | PosInf \<Rightarrow> js ''Infinity''
      | NegInf \<Rightarrow> js ''-Infinity''
      | Dec m e \<Rightarrow>
          if m = 0 then js ''0''
          else if m < 0 then 0x2D # positive_to_string (nat (- m)) e
          else positive_to_string (nat m) e)"

text \<open>
  The exact value of a double: \<open>Bin m e\<close> is \<open>m * 2 ^ e\<close>. A finite double has
  \<open>\<bar>m\<bar> \<le> 2 ^ 53\<close> and \<open>- 1074 \<le> e \<le> 971\<close>; \<open>-0\<close> is not told apart from \<open>0\<close>, which no
  operation of the program does either.
\<close>

datatype double = DNaN | DPosInf | DNegInf | Bin int int

text \<open>The number of binary digits of a natural number.\<close>

fun bits :: "nat \<Rightarrow> nat" where
  "bits n = (if n = 0 then 0 else Suc (bits (n div 2)))"

declare bits.simps [simp del]

text \<open>\<open>floor_log2 p q\<close> is the integer \<open>l\<close> with \<open>2 ^ l \<le> p / q < 2 ^ (l + 1)\<close>, for positive \<open>p\<close> and \<open>q\<close>.\<close>

definition floor_log2 :: "nat \<Rightarrow> nat \<Rightarrow> int" where
  "floor_log2 p q =
     (let l = int (bits p) - int (bits q)
      in if (if 0 \<le> l then q * 2 ^ nat l \<le> p else q \<le> p * 2 ^ nat (- l)) then l else l - 1)"

text \<open>
  Rounding of the non-negative ratio \<open>p / q\<close> to the nearest double, ties to the even
  significand: an integer up to \<open>2 ^ 53\<close> is a double; otherwise the significand has 53
  binary digits, or fewer at the least exponent \<open>- 1074\<close>, and a result of \<open>2 ^ 1024\<close> or
  more overflows (\<open>None\<close>).
\<close>

definition round_pos :: "nat \<Rightarrow> nat \<Rightarrow> (int \<times> int) option" where
  "round_pos p q =
     (if q dvd p \<and> p div q \<le> 2 ^ 53 then Some (int (p div q), 0)
      else
        (let e = max (floor_log2 p q - 52) (- 1074);
             num = (if 0 \<le> e then p else p * 2 ^ nat (- e));
             den = (if 0 \<le> e then q * 2 ^ nat e else q);
             f = num div den;
             r = num mod den;
             m = (if 2 * r < den then f else if den < 2 * r then f + 1
                  else if even f then f else f + 1)
         in if 971 < e \<or> (e = 971 \<and> 2 ^ 53 \<le> m) then None else Some (int m, e)))"

definition round_ratio :: "int \<Rightarrow> nat \<Rightarrow> double" where
  "round_ratio p q =
     (case round_pos (nat \<bar>p\<bar>) q of
        None \<Rightarrow> (if p < 0 then DNegInf else DPosInf)
      | Some (m, e) \<Rightarrow> Bin (if p < 0 then - m else m) e)"

definition to_double :: "jsnum \<Rightarrow> double" where
  "to_double x =
     (case x of
        NaN \<Rightarrow> DNaN
      | PosInf \<Rightarrow> DPosInf
      | NegInf \<Rightarrow> DNegInf
      | Dec m e \<Rightarrow>
          if 0 \<le> e then round_ratio (m * 10 ^ nat e) 1 else round_ratio m (10 ^ nat (- e)))"

definition isNaN :: "double \<Rightarrow> bool" where
  "isNaN x \<longleftrightarrow> x = DNaN"

text \<open>\<open>x - y\<close> (the exact difference, rounded), \<^verbatim>\<open>Math.abs\<close>, \<open>x <= y\<close> and \<open>x < y\<close> on doubles.\<close>

definition num_sub :: "double \<Rightarrow> double \<Rightarrow> double" where
  "num_sub x y =
     (case (x, y) of
        (DNaN, _) \<Rightarrow> DNaN
      | (_, DNaN) \<Rightarrow> DNaN
      | (DPosInf, DPosInf) \<Rightarrow> DNaN
      | (DNegInf, DNegInf) \<Rightarrow> DNaN
      | (DPosInf, _) \<Rightarrow> DPosInf
      | (DNegInf, _) \<Rightarrow> DNegInf
      | (_, DPosInf) \<Rightarrow> DNegInf
      | (_, DNegInf) \<Rightarrow> DPosInf
      | (Bin m1 e1, Bin m2 e2) \<Rightarrow>
          (let e = min e1 e2;
               m = m1 * 2 ^ nat (e1 - e) - m2 * 2 ^ nat (e2 - e)
           in if 0 \<le> e then round_ratio (m * 2 ^ nat e) 1 else round_ratio m (2 ^ nat (- e))))"

definition Math_abs :: "double \<Rightarrow> double" where
  "Math_abs x =
     (case x of DNaN \<Rightarrow> DNaN | DPosInf \<Rightarrow> DPosInf | DNegInf \<Rightarrow> DPosInf | Bin m e \<Rightarrow> Bin \<bar>m\<bar> e)"

definition num_le :: "double \<Rightarrow> double \<Rightarrow> bool" where
  "num_le x y =
     (case (x, y) of
        (DNaN, _) \<Rightarrow> False
      | (_, DNaN) \<Rightarrow> False
      | (DNegInf, _) \<Rightarrow> True
      | (_, DPosInf) \<Rightarrow> True
      | (DPosInf, _) \<Rightarrow> False
      | (_, DNegInf) \<Rightarrow> False
      | (Bin m1 e1, Bin m2 e2) \<Rightarrow>
          (let e = min e1 e2 in m1 * 2 ^ nat (e1 - e) \<le> m2 * 2 ^ nat (e2 - e)))"

definition num_lt :: "double \<Rightarrow> double \<Rightarrow> bool" where
  "num_lt x y =
     (case (x, y) of
        (DNaN, _) \<Rightarrow> False
      | (_, DNaN) \<Rightarrow> False
      | (DPosInf, _) \<Rightarrow> False
      | (_, DNegInf) \<Rightarrow> False
      | (DNegInf, _) \<Rightarrow> True
      | (_, DPosInf) \<Rightarrow> True
      | (Bin m1 e1, Bin m2 e2) \<Rightarrow>
          (let e = min e1 e2 in m1 * 2 ^ nat (e1 - e) < m2 * 2 ^ nat (e2 - e)))"

text \<open>
  \<^verbatim>\<open>parseInt(s, 10)\<close>: leading whitespace is skipped, then an optional sign, then the
  longest run of decimal digits; with no digit the result is NaN, and otherwise the
  double nearest to the integer that the digits spell.
\<close>

definition is_digit :: "16 word \<Rightarrow> bool" where
  "is_digit c \<longleftrightarrow> 0x30 \<le> c \<and> c \<le> 0x39"

definition digits_value :: "jsstring \<Rightarrow> int" where
  "digits_value ds = foldl (\<lambda>acc c. acc * 10 + (uint c - 48)) 0 ds"

definition parseInt :: "jsstring \<Rightarrow> double" where
  "parseInt s =
     (let t = dropWhile js_whitespace s;
          neg = (t \<noteq> [] \<and> hd t = 0x2D);
          u = (if t \<noteq> [] \<and> (hd t = 0x2B \<or> hd t = 0x2D) then tl t else t);
          z = takeWhile is_digit u
      in if z = [] then DNaN else round_ratio ((if neg then - 1 else 1) * digits_value z) 1)"

subsection \<open>Objects\<close>

text \<open>\<^verbatim>\<open>obj[key]\<close> for an own property; a key the object does not have reads \<^verbatim>\<open>undefined\<close>.\<close>

definition js_get :: "(jsstring \<times> jsval) list \<Rightarrow> jsstring \<Rightarrow> jsval" where
  "js_get obj k = (case map_of obj k of None \<Rightarrow> JUndefined | Some v \<Rightarrow> v)"

text \<open>
  Own property keys are enumerated with the array indices first, in ascending numeric
  order, and the other keys after them in the order of their creation. An array index is
  the canonical decimal string of an integer below \<open>2^32 - 1\<close>.
\<close>

definition is_array_index :: "jsstring \<Rightarrow> bool" where
  "is_array_index k \<longleftrightarrow>
     k \<noteq> [] \<and> list_all is_digit k \<and> (k = [0x30] \<or> hd k \<noteq> 0x30) \<and> digits_value k \<le> 4294967294"

fun insert_index :: "jsstring \<Rightarrow> jsval \<Rightarrow> (jsstring \<times> jsval) list \<Rightarrow> (jsstring \<times> jsval) list" where
  "insert_index k v [] = [(k, v)]"
| "insert_index k v (p # ps) =
     (if is_array_index (fst p) \<and> digits_value (fst p) < digits_value k
      then p # insert_index k v ps else (k, v) # p # ps)"

fun replace_prop :: "jsstring \<Rightarrow> jsval \<Rightarrow> (jsstring \<times> jsval) list \<Rightarrow> (jsstring \<times> jsval) list" where
  "replace_prop k v [] = []"
| "replace_prop k v (p # ps) = (if fst p = k then (k, v) # ps else p # replace_prop k v ps)"

text \<open>
  \<^verbatim>\<open>obj[key] = value\<close> on an object that started as \<^verbatim>\<open>{}\<close>. Assigning to
  \<^verbatim>\<open>__proto__\<close> runs the setter inherited from \<^verbatim>\<open>Object.prototype\<close> and creates
  no own property.
\<close>

definition js_set :: "(jsstring \<times> jsval) list \<Rightarrow> jsstring \<Rightarrow> jsval \<Rightarrow> (jsstring \<times> jsval) list" where
  "js_set obj k v =
     (if k = js ''__proto__'' then obj
      else if k \<in> set (map fst obj) then replace_prop k v obj
      else if is_array_index k then insert_index k v obj
      else obj @ [(k, v)])"

definition truthy :: "jsval \<Rightarrow> bool" where
  "truthy v =
     (case v of
        JNull \<Rightarrow> False
      | JUndefined \<Rightarrow> False
      | JBool b \<Rightarrow> b
      | JNum x \<Rightarrow> (case to_double x of DNaN \<Rightarrow> False | Bin m e \<Rightarrow> m \<noteq> 0 | _ \<Rightarrow> True)
      | JStr s \<Rightarrow> s \<noteq> []
      | JArr xs \<Rightarrow> True
      | JObj kvs \<Rightarrow> True)"

fun join :: "jsstring \<Rightarrow> jsstring list \<Rightarrow> jsstring" where
  "join sep [] = []"
| "join sep [x] = x"
| "join sep (x # y # ys) = x @ sep @ join sep (y # ys)"

text \<open>
  \<^verbatim>\<open>String(value)\<close>. An array joins the strings of its elements with commas, a
  \<^verbatim>\<open>null\<close> or \<^verbatim>\<open>undefined\<close> element giving the empty string. A plain object
  gives \<^verbatim>\<open>[object Object]\<close>, unless it has an own property \<^verbatim>\<open>toString\<close>: no value
  here is callable, \<^verbatim>\<open>valueOf\<close> returns the object, and the conversion raises
  \<^verbatim>\<open>TypeError\<close>.
\<close>

fun String :: "jsval \<Rightarrow> exn + jsstring" and String_elems :: "jsval list \<Rightarrow> exn + jsstring list" where
  "String JUndefined = Inr (js ''undefined'')"
| "String JNull = Inr (js ''null'')"
| "String (JBool b) = Inr (if b then js ''true'' else js ''false'')"
| "String (JNum x) = Inr (number_to_string x)"
| "String (JStr s) = Inr s"
| "String (JArr xs) = (case String_elems xs of Inl e \<Rightarrow> Inl e | Inr ss \<Rightarrow> Inr (join [0x2C] ss))"
| "String (JObj kvs) =
     (if js ''toString'' \<in> set (map fst kvs) then Inl TypeError else Inr (js ''[object Object]''))"
| "String_elems [] = Inr []"
| "String_elems (x # xs) =
     (case (if x = JNull \<or> x = JUndefined then Inr [] else String x) of
        Inl e \<Rightarrow> Inl e
      | Inr s \<Rightarrow> (case String_elems xs of Inl e \<Rightarrow> Inl e | Inr ss \<Rightarrow> Inr (s # ss)))"

subsection \<open>\<^verbatim>\<open>JSON.stringify\<close> without indentation\<close>

definition unicode_escape :: "16 word \<Rightarrow> jsstring" where
  "unicode_escape c =
     (let n = unat c
      in [0x5C, 0x75, hex_lower (n div 4096), hex_lower ((n div 256) mod 16),
          hex_lower ((n div 16) mod 16), hex_lower (n mod 16)])"

definition quote_unit :: "16 word \<Rightarrow> jsstring" where
  "quote_unit c =
     (if c = 0x08 then [0x5C, 0x62]
      else if c = 0x09 then [0x5C, 0x74]
      else if c = 0x0A then [0x5C, 0x6E]
      else if c = 0x0C then [0x5C, 0x66]
      else if c = 0x0D then [0x5C, 0x72]
      else if c = 0x22 then [0x5C, 0x22]
      else if c = 0x5C then [0x5C, 0x5C]
      else if c < 0x20 \<or> is_high c \<or> is_low c then unicode_escape c
      else [c])"

fun quote_body :: "jsstring \<Rightarrow> jsstring" where
  "quote_body [] = []"
| "quote_body [c] = quote_unit c"
| "quote_body (c # d # cs) =
     (if is_high c \<and> is_low d then c # d # quote_body cs
      else quote_unit c @ quote_body (d # cs))"

definition QuoteJSONString :: "jsstring \<Rightarrow> jsstring" where
  "QuoteJSONString s = [0x22] @ quote_body s @ [0x22]"

text \<open>
  A value that serialises to nothing (\<^verbatim>\<open>undefined\<close>) is \<open>None\<close>: it is printed as
  \<^verbatim>\<open>null\<close> in an array and its property is left out of an object. A number that is not
  finite is printed as \<^verbatim>\<open>null\<close>.
\<close>

fun JSON_stringify :: "jsval \<Rightarrow> jsstring option"
  and JSON_elems :: "jsval list \<Rightarrow> jsstring list"
  and JSON_props :: "(jsstring \<times> jsval) list \<Rightarrow> jsstring list" where
  "JSON_stringify JNull = Some (js ''null'')"
| "JSON_stringify JUndefined = None"
| "JSON_stringify (JBool b) = Some (if b then js ''true'' else js ''false'')"
| "JSON_stringify (JNum x) =
     Some (case x of Dec m e \<Rightarrow> number_to_string x | _ \<Rightarrow> js ''null'')"
| "JSON_stringify (JStr s) = Some (QuoteJSONString s)"
| "JSON_stringify (JArr xs) = Some ([0x5B] @ join [0x2C] (JSON_elems xs) @ [0x5D])"
| "JSON_stringify (JObj kvs) = Some ([0x7B] @ join [0x2C] (JSON_props kvs) @ [0x7D])"
| "JSON_elems [] = []"
| "JSON_elems (x # xs) =
     (case JSON_stringify x of None \<Rightarrow> js ''null'' | Some s \<Rightarrow> s) # JSON_elems xs"
| "JSON_props [] = []"
| "JSON_props (p # ps) =
     (case JSON_stringify (snd p) of
        None \<Rightarrow> JSON_props ps
      | Some s \<Rightarrow> (QuoteJSONString (fst p) @ [0x3A] @ s) # JSON_props ps)"

section \<open>The Node \<^verbatim>\<open>crypto\<close> functions\<close>

subsection \<open>SHA-256 (FIPS 180-4)\<close>

definition K256 :: "32 word list" where
  "K256 =
    [0x428A2F98, 0x71374491, 0xB5C0FBCF, 0xE9B5DBA5, 0x3956C25B, 0x59F111F1, 0x923F82A4, 0xAB1C5ED5,
     0xD807AA98, 0x12835B01, 0x243185BE, 0x550C7DC3, 0x72BE5D74, 0x80DEB1FE, 0x9BDC06A7, 0xC19BF174,
     0xE49B69C1, 0xEFBE4786, 0x0FC19DC6, 0x240CA1CC, 0x2DE92C6F, 0x4A7484AA, 0x5CB0A9DC, 0x76F988DA,
     0x983E5152, 0xA831C66D, 0xB00327C8, 0xBF597FC7, 0xC6E00BF3, 0xD5A79147, 0x06CA6351, 0x14292967,
     0x27B70A85, 0x2E1B2138, 0x4D2C6DFC, 0x53380D13, 0x650A7354, 0x766A0ABB, 0x81C2C92E, 0x92722C85,
     0xA2BFE8A1, 0xA81A664B, 0xC24B8B70, 0xC76C51A3, 0xD192E819, 0xD6990624, 0xF40E3585, 0x106AA070,
     0x19A4C116, 0x1E376C08, 0x2748774C, 0x34B0BCB5, 0x391C0CB3, 0x4ED8AA4A, 0x5B9CCA4F, 0x682E6FF3,
     0x748F82EE, 0x78A5636F, 0x84C87814, 0x8CC70208, 0x90BEFFFA, 0xA4506CEB, 0xBEF9A3F7, 0xC67178F2]"

definition H256 :: "32 word list" where
  "H256 =
    [0x6A09E667, 0xBB67AE85, 0x3C6EF372, 0xA54FF53A, 0x510E527F, 0x9B05688C, 0x1F83D9AB, 0x5BE0CD19]"

definition Ch :: "32 word \<Rightarrow> 32 word \<Rightarrow> 32 word \<Rightarrow> 32 word" where
  "Ch x y z = (x AND y) XOR (NOT x AND z)"

definition Maj :: "32 word \<Rightarrow> 32 word \<Rightarrow> 32 word \<Rightarrow> 32 word" where
  "Maj x y z = (x AND y) XOR (x AND z) XOR (y AND z)"

definition Sigma0 :: "32 word \<Rightarrow> 32 word" where
  "Sigma0 x = word_rotr 2 x XOR word_rotr 13 x XOR word_rotr 22 x"

definition Sigma1 :: "32 word \<Rightarrow> 32 word" where
  "Sigma1 x = word_rotr 6 x XOR word_rotr 11 x XOR word_rotr 25 x"

definition sigma0 :: "32 word \<Rightarrow> 32 word" where
  "sigma0 x = word_rotr 7 x XOR word_rotr 18 x XOR drop_bit 3 x"

definition sigma1 :: "32 word \<Rightarrow> 32 word" where
  "sigma1 x = word_rotr 17 x XOR word_rotr 19 x XOR drop_bit 10 x"

text \<open>
  Padding: one byte \<open>0x80\<close>, zero bytes up to 56 modulo 64, and the length of the
  message in bits as a 64-bit big-endian integer.
\<close>

definition bytes_of_word32 :: "32 word \<Rightarrow> bytes" where
  "bytes_of_word32 x = [ucast (drop_bit 24 x), ucast (drop_bit 16 x), ucast (drop_bit 8 x), ucast x]"

definition bytes_of_word64 :: "64 word \<Rightarrow> bytes" where
  "bytes_of_word64 x =
     [ucast (drop_bit 56 x), ucast (drop_bit 48 x), ucast (drop_bit 40 x), ucast (drop_bit 32 x),
      ucast (drop_bit 24 x), ucast (drop_bit 16 x), ucast (drop_bit 8 x), ucast x]"

definition sha_pad :: "bytes \<Rightarrow> bytes" where
  "sha_pad m =
     m @ [0x80] @ replicate ((119 - length m mod 64) mod 64) 0 @
     bytes_of_word64 (of_nat (8 * length m))"

fun be_words :: "bytes \<Rightarrow> 32 word list" where
  "be_words (a # b # c # d # bs) =
     (push_bit 24 (ucast a) OR push_bit 16 (ucast b) OR push_bit 8 (ucast c) OR ucast d)
     # be_words bs"
| "be_words bs = []"

text \<open>
  The message schedule \<open>W\<^sub>0 \<dots> W\<^sub>6\<^sub>3\<close>: the 16 words of the block, then
  \<open>W\<^sub>t = \<sigma>\<^sub>1(W\<^sub>t\<^sub>-\<^sub>2) + W\<^sub>t\<^sub>-\<^sub>7 + \<sigma>\<^sub>0(W\<^sub>t\<^sub>-\<^sub>1\<^sub>5) + W\<^sub>t\<^sub>-\<^sub>1\<^sub>6\<close>. The argument of
  \<open>extend\<close> is the window of the last 16 words, oldest first.
\<close>

fun extend :: "nat \<Rightarrow> 32 word list \<Rightarrow> 32 word list" where
  "extend 0 ws = []"
| "extend (Suc n) ws =
     (let new = sigma1 (ws ! 14) + ws ! 9 + sigma0 (ws ! 1) + ws ! 0
      in new # extend n (tl ws @ [new]))"

definition schedule :: "32 word list \<Rightarrow> 32 word list" where
  "schedule w16 = w16 @ extend 48 w16"

type_synonym sha_regs =
  "32 word \<times> 32 word \<times> 32 word \<times> 32 word \<times> 32 word \<times> 32 word \<times> 32 word \<times> 32 word"

definition sha_round :: "32 word \<times> 32 word \<Rightarrow> sha_regs \<Rightarrow> sha_regs" where
  "sha_round kw r =
     (case r of (a, b, c, d, e, f, g, h) \<Rightarrow>
        (let t1 = h + Sigma1 e + Ch e f g + fst kw + snd kw;
             t2 = Sigma0 a + Maj a b c
         in (t1 + t2, a, b, c, d + t1, e, f, g)))"

definition compress :: "32 word list \<Rightarrow> 32 word list \<Rightarrow> 32 word list" where
  "compress hs block =
     (case fold sha_round (zip K256 (schedule block))
             (hs ! 0, hs ! 1, hs ! 2, hs ! 3, hs ! 4, hs ! 5, hs ! 6, hs ! 7) of
        (a, b, c, d, e, f, g, h) \<Rightarrow>
          [hs ! 0 + a, hs ! 1 + b, hs ! 2 + c, hs ! 3 + d,
           hs ! 4 + e, hs ! 5 + f, hs ! 6 + g, hs ! 7 + h])"

fun sha_blocks :: "nat \<Rightarrow> 32 word list \<Rightarrow> 32 word list \<Rightarrow> 32 word list" where
  "sha_blocks 0 hs ws = hs"
| "sha_blocks (Suc n) hs ws = sha_blocks n (compress hs (take 16 ws)) (drop 16 ws)"

definition sha256 :: "bytes \<Rightarrow> bytes" where
  "sha256 m =
     (let p = sha_pad m
      in concat (map bytes_of_word32 (sha_blocks (length p div 64) H256 (be_words p))))"

subsection \<open>HMAC (RFC 2104) and the hexadecimal digest\<close>

definition hmac_sha256 :: "bytes \<Rightarrow> bytes \<Rightarrow> bytes" where
  "hmac_sha256 key msg =
     (let k0 = (if 64 < length key then sha256 key else key);
          k = k0 @ replicate (64 - length k0) 0
      in sha256 (map (\<lambda>b. b XOR 0x5C) k @ sha256 (map (\<lambda>b. b XOR 0x36) k @ msg)))"

definition hex_digest :: "bytes \<Rightarrow> jsstring" where
  "hex_digest bs = concat (map (\<lambda>b. [hex_lower (unat b div 16), hex_lower (unat b mod 16)]) bs)"

text \<open>
  \<^verbatim>\<open>crypto.timingSafeEqual\<close> raises \<^verbatim>\<open>RangeError\<close> when the two buffers differ in
  length.
\<close>

definition timingSafeEqual :: "bytes \<Rightarrow> bytes \<Rightarrow> exn + bool" where
  "timingSafeEqual a b = (if length a \<noteq> length b then Inl RangeError else Inr (a = b))"

section \<open>The class \<^verbatim>\<open>SignatureValidator\<close>\<close>

record SignatureValidator =
  secret :: jsstring

text \<open>The constructor throws \<^verbatim>\<open>Error\<close> when \<^verbatim>\<open>!secret || secret.trim() === ''\<close>.\<close>

definition constructor :: "jsstring \<Rightarrow> exn + SignatureValidator" where
  "constructor s = (if s = [] \<or> trim s = [] then Inl Error else Inr \<lparr>secret = s\<rparr>)"

definition isValidValue :: "jsval \<Rightarrow> bool" where
  "isValidValue v =
     (if v = JNull \<or> v = JUndefined then False
      else if v = JStr [] then False
      else if (case v of JObj kvs \<Rightarrow> length (map fst kvs) = 0 | _ \<Rightarrow> False) then False
      else if (case v of JArr xs \<Rightarrow> length xs = 0 | _ \<Rightarrow> False) then False
      else True)"

lemma size_js_get:
  "k \<in> set (map fst kvs) \<Longrightarrow> size (js_get kvs k) < Suc (size_list (size_prod (\<lambda>_. 0) size) kvs)"
proof (induction kvs)
  case Nil
  then show ?case by simp
next
  case (Cons p ps)
  obtain k' v' where p: "p = (k', v')" by (cases p)
  show ?case
  proof (cases "k' = k")
    case True
    with p show ?thesis by (simp add: js_get_def)
  next
    case False
    with Cons p have "size (js_get ps k) < Suc (size_list (size_prod (\<lambda>_. 0) size) ps)"
      by simp
    with False p show ?thesis by (simp add: js_get_def)
  qed
qed

text \<open>
  \<^verbatim>\<open>_sortObjectKeys\<close>: an array is mapped element by element; an object is rebuilt by
  assigning its properties to a fresh object in the order of its sorted keys.
\<close>

function sortObjectKeys :: "jsval \<Rightarrow> jsval" where
  "sortObjectKeys (JArr xs) = JArr (map sortObjectKeys xs)"
| "sortObjectKeys (JObj kvs) =
     JObj (fold (\<lambda>key result. js_set result key (sortObjectKeys (js_get kvs key)))
             (sort (map fst kvs)) [])"
| "sortObjectKeys JNull = JNull"
| "sortObjectKeys JUndefined = JUndefined"
| "sortObjectKeys (JBool b) = JBool b"
| "sortObjectKeys (JNum x) = JNum x"
| "sortObjectKeys (JStr s) = JStr s"
  by pat_completeness auto
termination
proof (relation "measure size")
  show "wf (measure (size :: jsval \<Rightarrow> nat))" by simp
next
  fix xs :: "jsval list" and x
  assume "x \<in> set xs"
  then have "size x < Suc (size_list size xs)"
    by (induction xs) auto
  then show "(x, JArr xs) \<in> measure size" by simp
next
  fix kvs :: "(jsstring \<times> jsval) list" and key
  assume "key \<in> set (sort (map fst kvs))"
  then have "key \<in> set (map fst kvs)" by simp
  then show "(js_get kvs key, JObj kvs) \<in> measure size"
    using size_js_get [of key kvs] by simp
qed

text \<open>
  \<^verbatim>\<open>_normalizeValue\<close>: \<^verbatim>\<open>JSON.stringify\<close> of the sorted value for an object or an
  array, \<^verbatim>\<open>String(value)\<close> otherwise. The caller passes the result to
  \<^verbatim>\<open>encodeURIComponent\<close>, which turns \<^verbatim>\<open>undefined\<close> into the string
  \<^verbatim>\<open>undefined\<close>.
\<close>

definition normalizeValue :: "jsval \<Rightarrow> exn + jsstring" where
  "normalizeValue v =
     (if (case v of JArr xs \<Rightarrow> True | JObj kvs \<Rightarrow> True | _ \<Rightarrow> False)
      then (case JSON_stringify (sortObjectKeys v) of
              None \<Rightarrow> Inr (js ''undefined'')
            | Some s \<Rightarrow> Inr s)
      else String v)"

text \<open>
  \<^verbatim>\<open>_buildSignString\<close>: the keys are sorted by code units, each key and its normalised
  value are encoded and joined by \<open>=\<close>, and the parts are joined by \<open>&\<close>.
\<close>

fun sign_parts :: "(jsstring \<times> jsval) list \<Rightarrow> jsstring list \<Rightarrow> exn + jsstring list" where
  "sign_parts params [] = Inr []"
| "sign_parts params (key # keys) =
     (case normalizeValue (js_get params key) of
        Inl e \<Rightarrow> Inl e
      | Inr v \<Rightarrow>
          (case encodeURIComponent key of
             Inl e \<Rightarrow> Inl e
           | Inr encodedKey \<Rightarrow>
               (case encodeURIComponent v of
                  Inl e \<Rightarrow> Inl e
                | Inr encodedValue \<Rightarrow>
                    (case sign_parts params keys of
                       Inl e \<Rightarrow> Inl e
                     | Inr parts \<Rightarrow> Inr ((encodedKey @ [0x3D] @ encodedValue) # parts)))))"

definition buildSignString :: "(jsstring \<times> jsval) list \<Rightarrow> exn + jsstring" where
  "buildSignString params =
     (case sign_parts params (sort (map fst params)) of
        Inl e \<Rightarrow> Inl e
      | Inr parts \<Rightarrow> Inr (join [0x26] parts))"

text \<open>
  The filter loop of \<^verbatim>\<open>generateSignature\<close> over \<^verbatim>\<open>Object.entries(params)\<close>, the
  optional timestamp, and the string that is signed.
\<close>

definition defaultExcludeKeys :: "jsstring set" where
  "defaultExcludeKeys = {js ''sign'', js ''signature''}"

definition filterParams :: "jsstring set \<Rightarrow> (jsstring \<times> jsval) list \<Rightarrow> (jsstring \<times> jsval) list" where
  "filterParams finalExcludeKeys params =
     fold (\<lambda>(key, v) filteredParams.
             if key \<notin> finalExcludeKeys \<and> isValidValue v then js_set filteredParams key v
             else filteredParams)
       params []"

definition signString ::
  "(jsstring \<times> jsval) list \<Rightarrow> jsnum option \<Rightarrow> jsstring set option \<Rightarrow> exn + jsstring" where
  "signString params timestamp excludeKeys =
     (let finalExcludeKeys = (case excludeKeys of None \<Rightarrow> defaultExcludeKeys | Some ks \<Rightarrow> ks);
          filteredParams = filterParams finalExcludeKeys params;
          filteredParams' =
            (case timestamp of
               None \<Rightarrow> filteredParams
             | Some t \<Rightarrow> js_set filteredParams (js ''timestamp'') (JNum t))
      in buildSignString filteredParams')"

definition generateSignature ::
  "SignatureValidator \<Rightarrow> (jsstring \<times> jsval) list \<Rightarrow> jsnum option \<Rightarrow> jsstring set option
     \<Rightarrow> exn + jsstring" where
  "generateSignature this params timestamp excludeKeys =
     (case signString params timestamp excludeKeys of
        Inl e \<Rightarrow> Inl e
      | Inr s \<Rightarrow> Inr (hex_digest (hmac_sha256 (Buffer_from (secret this)) (Buffer_from s))))"

text \<open>
  \<^verbatim>\<open>_checkTimestamp\<close>. The number \<open>ts\<close> is the timestamp itself when it is a number,
  and \<^verbatim>\<open>parseInt(String(timestamp), 10)\<close> otherwise. The clock is an input: \<open>now\<close> is
  the value of \<^verbatim>\<open>Date.now()\<close>, an integer number of milliseconds, for which
  \<^verbatim>\<open>Math.floor(Date.now() / 1000)\<close> is \<open>now div 1000\<close>. Whatever is thrown inside is
  caught and gives \<^verbatim>\<open>false\<close>.
\<close>

definition timestamp_number :: "jsval \<Rightarrow> exn + double" where
  "timestamp_number timestamp =
     (case timestamp of JNum x \<Rightarrow> Inr (to_double x) | _ \<Rightarrow> map_sum id parseInt (String timestamp))"

definition currentTime :: "int \<Rightarrow> double" where
  "currentTime now = round_ratio (now div 1000) 1"

definition checkTimestamp :: "int \<Rightarrow> jsval \<Rightarrow> jsnum \<Rightarrow> bool" where
  "checkTimestamp now timestamp tolerance =
     (case timestamp_number timestamp of
        Inl e \<Rightarrow> False
      | Inr ts \<Rightarrow>
          if isNaN ts then False
          else num_le (Math_abs (num_sub (currentTime now) ts)) (to_double tolerance))"

text \<open>
  \<^verbatim>\<open>validate\<close>. Only the comparison is inside \<^verbatim>\<open>try\<close>: an exception of
  \<^verbatim>\<open>generateSignature\<close> leaves \<^verbatim>\<open>validate\<close> as it is.
\<close>

definition validate ::
  "SignatureValidator \<Rightarrow> int \<Rightarrow> (jsstring \<times> jsval) list \<Rightarrow> jsstring \<Rightarrow> jsnum option
     \<Rightarrow> exn + bool" where
  "validate this now params signature timestampTolerance =
     (if (case timestampTolerance of
            None \<Rightarrow> False
          | Some tolerance \<Rightarrow>
              truthy (js_get params (js ''timestamp'')) \<and>
              \<not> checkTimestamp now (js_get params (js ''timestamp'')) tolerance)
      then Inr False
      else (case generateSignature this params None None of
              Inl e \<Rightarrow> Inl e
            | Inr expectedSign \<Rightarrow>
                (case timingSafeEqual (Buffer_from expectedSign) (Buffer_from signature) of
                   Inl e \<Rightarrow> Inr False
                 | Inr b \<Rightarrow> Inr b)))"

section \<open>Notions used by the properties\<close>

text \<open>A lowercase hexadecimal digit: \<open>0\<close> to \<open>9\<close> or \<open>a\<close> to \<open>f\<close>.\<close>

definition is_hex_lower :: "16 word \<Rightarrow> bool" where
  "is_hex_lower c \<longleftrightarrow> (0x30 \<le> c \<and> c \<le> 0x39) \<or> (0x61 \<le> c \<and> c \<le> 0x66)"

text \<open>A code unit of the ASCII range.\<close>

definition ascii :: "16 word \<Rightarrow> bool" where
  "ascii c \<longleftrightarrow> c < 0x80"

text \<open>
  A string without unpaired surrogates, a value that is not a string with one, and
  parameters whose keys and string values have none: those that
  \<^verbatim>\<open>encodeURIComponent\<close> accepts.
\<close>

fun well_formed :: "jsstring \<Rightarrow> bool" where
  "well_formed [] = True"
| "well_formed [c] = (\<not> is_high c \<and> \<not> is_low c)"
| "well_formed (c # d # cs) =
     (if is_high c then is_low d \<and> well_formed cs
      else \<not> is_low c \<and> well_formed (d # cs))"

definition value_encodable :: "jsval \<Rightarrow> bool" where
  "value_encodable v = (case v of JStr s \<Rightarrow> well_formed s | _ \<Rightarrow> True)"

definition encodable :: "(jsstring \<times> jsval) list \<Rightarrow> bool" where
  "encodable params =
     list_all (\<lambda>p. well_formed (fst p) \<and> value_encodable (snd p)) params"

text \<open>
  An entry that the filter loop of \<^verbatim>\<open>generateSignature\<close> copies into
  \<^verbatim>\<open>filteredParams\<close>: its key is not excluded, its value is not empty, and the
  assignment creates a property (the key is not \<^verbatim>\<open>__proto__\<close>).
\<close>

definition kept :: "jsstring set \<Rightarrow> jsstring \<times> jsval \<Rightarrow> bool" where
  "kept ex p \<longleftrightarrow> fst p \<notin> ex \<and> isValidValue (snd p) \<and> fst p \<noteq> js ''__proto__''"

text \<open>An object or an array, as opposed to a scalar.\<close>

definition structured :: "jsval \<Rightarrow> bool" where
  "structured v = (case v of JArr xs \<Rightarrow> True | JObj kvs \<Rightarrow> True | _ \<Rightarrow> False)"

text \<open>
  Semantic equality of two values: scalars are equal, arrays are equal element by
  element in the same order, and objects have the same keys with semantically equal
  values under each key, in whatever order the properties are enumerated.
\<close>

fun sem_eq :: "jsval \<Rightarrow> jsval \<Rightarrow> bool"
  and sem_eq_list :: "jsval list \<Rightarrow> jsval list \<Rightarrow> bool"
  and sem_eq_props :: "(jsstring \<times> jsval) list \<Rightarrow> (jsstring \<times> jsval) list \<Rightarrow> bool" where
  "sem_eq (JArr xs) w = (case w of JArr ys \<Rightarrow> sem_eq_list xs ys | _ \<Rightarrow> False)"
| "sem_eq (JObj kvs) w =
     (case w of
        JObj kvs' \<Rightarrow>
          distinct (map fst kvs) \<and> distinct (map fst kvs') \<and>
          set (map fst kvs) = set (map fst kvs') \<and> sem_eq_props kvs kvs'
      | _ \<Rightarrow> False)"
| "sem_eq JNull w = (w = JNull)"
| "sem_eq JUndefined w = (w = JUndefined)"
| "sem_eq (JBool b) w = (w = JBool b)"
| "sem_eq (JNum x) w = (w = JNum x)"
| "sem_eq (JStr s) w = (w = JStr s)"
| "sem_eq_list [] ys = (ys = [])"
| "sem_eq_list (x # xs) ys = (case ys of [] \<Rightarrow> False | y # ys' \<Rightarrow> sem_eq x y \<and> sem_eq_list xs ys')"
| "sem_eq_props [] kvs' = True"
| "sem_eq_props (p # ps) kvs' = (sem_eq (snd p) (js_get kvs' (fst p)) \<and> sem_eq_props ps kvs')"

text \<open>
  Two objects that \<^verbatim>\<open>_buildSignString\<close> cannot tell apart: the same keys, and
  under each key values with the same normalised string.
\<close>

definition same_signed :: "(jsstring \<times> jsval) list \<Rightarrow> (jsstring \<times> jsval) list \<Rightarrow> bool" where
  "same_signed A B \<longleftrightarrow>
     distinct (map fst A) \<and> distinct (map fst B) \<and> set (map fst A) = set (map fst B) \<and>
     (\<forall>k \<in> set (map fst A). normalizeValue (js_get A k) = normalizeValue (js_get B k))"


text \<open>
  The inputs of the usage examples: the validator of
  \<^verbatim>\<open>new SignatureValidator('your_secret_key_here')\<close>, and the parameters
  \<^verbatim>\<open>{app_id: "A1", amount: 39.99, email: "", note: null, extra: {}}\<close> with their
  signature.
\<close>

definition demo :: SignatureValidator where
  "demo = \<lparr>secret = js ''your_secret_key_here''\<rparr>"

definition P5 :: "(jsstring \<times> jsval) list" where
  "P5 = [(js ''app_id'', JStr (js ''A1'')), (js ''amount'', JNum (Dec 3999 (- 2))),
         (js ''email'', JStr []), (js ''note'', JNull), (js ''extra'', JObj [])]"

definition sigP5 :: jsstring where
  "sigP5 = hex_digest (hmac_sha256 (Buffer_from (js ''your_secret_key_here''))
             (Buffer_from (js ''amount=39.99&app_id=A1'')))"

text \<open>
  Two orderings of one parameter object with a nested object and an array, and the
  parameters of the timestamp example.
\<close>

definition Pa :: "(jsstring \<times> jsval) list" where
  "Pa = [(js ''b'', JObj [(js ''y'', JNum (Dec 1 0)),
                          (js ''x'', JArr [JObj [(js ''q'', JBool False), (js ''p'', JNum (Dec 2 0))]])]),
         (js ''a'', JStr (js ''1''))]"

definition Pb :: "(jsstring \<times> jsval) list" where
  "Pb = [(js ''a'', JStr (js ''1'')),
         (js ''b'', JObj [(js ''x'', JArr [JObj [(js ''p'', JNum (Dec 2 0)), (js ''q'', JBool False)]]),
                          (js ''y'', JNum (Dec 1 0))])]"

definition P3 :: "(jsstring \<times> jsval) list" where
  "P3 = [(js ''user_id'', JNum (Dec 12345 0)), (js ''action'', JStr (js ''login'')),
         (js ''timestamp'', JNum (Dec 1700000000 0))]"

text \<open>
  Parameters whose timestamp is 0, parameters with a stale timestamp and a string that
  cannot be encoded, and the signatures of the first and of the timestamp example.
\<close>

definition P0 :: "(jsstring \<times> jsval) list" where
  "P0 = [(js ''timestamp'', JNum (Dec 0 0))]"

definition sigP0 :: jsstring where
  "sigP0 = hex_digest (hmac_sha256 (Buffer_from (js ''your_secret_key_here''))
             (Buffer_from (js ''timestamp=0'')))"

definition sigP3 :: jsstring where
  "sigP3 = hex_digest (hmac_sha256 (Buffer_from (js ''your_secret_key_here''))
             (Buffer_from (js ''action=login&timestamp=1700000000&user_id=12345'')))"

definition Pw :: "(jsstring \<times> jsval) list" where
  "Pw = [(js ''timestamp'', JNum (Dec 1699999400 0)), (js ''note'', JStr [0xD800])]"

section \<open>Running the program on concrete inputs\<close>

text \<open>The definitions unfolded to run the program on a concrete input.\<close>

lemmas eval_defs = js_def signString_def filterParams_def isValidValue_def js_set_def
  defaultExcludeKeys_def buildSignString_def normalizeValue_def js_get_def
  uri_unreserved_def is_low_def is_high_def prepend_def is_array_index_def is_digit_def
  digits_value_def generateSignature_def

lemma replicate_numeral: "replicate (numeral k) x = x # replicate (pred_numeral k) x"
  by (simp add: numeral_eq_Suc)

lemmas run_defs = eval_defs number_to_string_def positive_to_string_def digits10.simps
  digit_chars_def Let_def percent_octet_def hex_upper_def utf8_bytes_def replicate_numeral

lemma signString_P5: "signString P5 None None = Inr (js ''amount=39.99&app_id=A1'')"
  by (simp add: P5_def run_defs)

lemma generateSignature_P5: "generateSignature demo P5 None None = Inr sigP5"
  unfolding generateSignature_def signString_P5 by (simp add: demo_def sigP5_def)

lemma signString_Pa:
  "signString Pa None None =
     Inr (js ''a=1&b=%7B%22x%22%3A%5B%7B%22p%22%3A2%2C%22q%22%3Afalse%7D%5D%2C%22y%22%3A1%7D'')"
  by (simp add: Pa_def run_defs QuoteJSONString_def quote_unit_def)

lemma signString_P3:
  "signString P3 (Some (Dec 1700000600 0)) None =
     Inr (js ''action=login&timestamp=1700000600&user_id=12345'')"
  by (simp add: P3_def run_defs)

lemma signString_P0: "signString P0 None None = Inr (js ''timestamp=0'')"
  by (simp add: P0_def run_defs)

lemma generateSignature_P0: "generateSignature demo P0 None None = Inr sigP0"
  unfolding generateSignature_def signString_P0 by (simp add: demo_def sigP0_def)

lemma signString_P3_plain:
  "signString P3 None None = Inr (js ''action=login&timestamp=1700000000&user_id=12345'')"
  by (simp add: P3_def run_defs)

lemma generateSignature_P3: "generateSignature demo P3 None None = Inr sigP3"
  unfolding generateSignature_def signString_P3_plain by (simp add: demo_def sigP3_def)

text \<open>The model of SHA-256 on the one-block test message of FIPS 180-4.\<close>

lemma sha256_abc:
  "hex_digest (sha256 (Buffer_from (js ''abc''))) =
     js ''ba7816bf8f01cfea414140de5dae2223b00361a396177a9cb410ff61f20015ad''"
  by code_simp

section \<open>The constructor\<close>

lemma trim_Nil_iff: "trim s = [] \<longleftrightarrow> list_all js_whitespace s"
proof
  assume "trim s = []"
  then have a: "\<forall>x \<in> set (dropWhile js_whitespace s). js_whitespace x"
    by (simp add: trim_def)
  show "list_all js_whitespace s"
  proof (cases "dropWhile js_whitespace s")
    case Nil
    then show ?thesis by (simp add: list_all_iff)
  next
    case (Cons c cs)
    then have "\<not> js_whitespace c" using hd_dropWhile [of js_whitespace s] by simp
    moreover from a Cons have "js_whitespace c" by simp
    ultimately show ?thesis by simp
  qed
next
  assume "list_all js_whitespace s"
  then show "trim s = []"
    by (auto simp: trim_def list_all_iff dest: set_dropWhileD)
qed

text \<open>
  Claim C7, the part about the constructor: construction raises exactly when the secret
  is the empty string or consists of whitespace only (the code units that
  \<^verbatim>\<open>trim\<close> strips), and otherwise yields a validator holding that secret.
\<close>

theorem constructor_precondition:
  "constructor s = (if list_all js_whitespace s then Inl Error else Inr \<lparr>secret = s\<rparr>)"
  by (cases s) (auto simp: constructor_def trim_Nil_iff)

text \<open>The constructor at five secrets, three refused and two accepted.\<close>

theorem constructor_precondition_witness:
  "constructor [] = Inl Error \<and> constructor (js '' '') = Inl Error
   \<and> constructor [0x09, 0x3000, 0x0A] = Inl Error
   \<and> constructor (js ''ck-f98'') = Inr \<lparr>secret = js ''ck-f98''\<rparr>
   \<and> constructor (js '' k '') = Inr \<lparr>secret = js '' k ''\<rparr>"
  using constructor_precondition [of "[]"] constructor_precondition [of "js '' ''"]
    constructor_precondition [of "[0x09, 0x3000, 0x0A]"]
    constructor_precondition [of "js ''ck-f98''"] constructor_precondition [of "js '' k ''"]
  by (simp add: js_def js_whitespace_def)

text \<open>
  Claim C7 also says that the constructor is the only operation that throws. It is not:
  on a validator that was constructed without error, \<^verbatim>\<open>generateSignature\<close>
  throws \<^verbatim>\<open>URIError\<close> for a parameter whose string value is an unpaired
  surrogate, as \<^verbatim>\<open>JSON.parse\<close> makes of \<^verbatim>\<open>{"a": "\\ud800"}\<close>.
\<close>

theorem other_operation_throws:
  "constructor (js ''k'') = Inr \<lparr>secret = js ''k''\<rparr> \<and>
   generateSignature \<lparr>secret = js ''k''\<rparr> [(js ''a'', JStr [0xD800])] None None = Inl URIError"
  by (simp add: eval_defs constructor_def trim_def js_whitespace_def)

section \<open>Objects as finite maps\<close>

text \<open>
  What an assignment does to the keys and to the lookup of an object, and what the
  filter loop builds.
\<close>

lemma keys_replace_prop: "map fst (replace_prop k v ps) = map fst ps"
  by (induction ps) auto

lemma map_of_replace_prop:
  "k \<in> set (map fst ps) \<Longrightarrow> map_of (replace_prop k v ps) = (map_of ps)(k \<mapsto> v)"
proof (induction ps)
  case Nil
  then show ?case by simp
next
  case (Cons p ps)
  show ?case
  proof (cases "fst p = k")
    case True
    then show ?thesis by (cases p) (auto simp: fun_eq_iff)
  next
    case False
    with Cons.prems have "k \<in> set (map fst ps)" by auto
    then have "map_of (replace_prop k v ps) = (map_of ps)(k \<mapsto> v)" by (rule Cons.IH)
    with False show ?thesis by (cases p) (auto simp: fun_eq_iff)
  qed
qed

lemma keys_insert_index: "set (map fst (insert_index k v ps)) = insert k (set (map fst ps))"
  by (induction ps) auto

lemma distinct_insert_index:
  "k \<notin> set (map fst ps) \<Longrightarrow> distinct (map fst ps) \<Longrightarrow> distinct (map fst (insert_index k v ps))"
  by (induction ps) (auto simp: keys_insert_index simp del: set_map)

lemma map_of_insert_index:
  "k \<notin> set (map fst ps) \<Longrightarrow> map_of (insert_index k v ps) = (map_of ps)(k \<mapsto> v)"
  by (induction ps) (auto simp: fun_eq_iff)

lemma distinct_js_set:
  "distinct (map fst obj) \<Longrightarrow> distinct (map fst (js_set obj k v))"
  by (simp add: js_set_def keys_replace_prop distinct_insert_index del: set_map)

lemma keys_js_set:
  "set (map fst (js_set obj k v)) =
     (if k = js ''__proto__'' then set (map fst obj) else insert k (set (map fst obj)))"
  by (auto simp: js_set_def keys_replace_prop keys_insert_index simp del: set_map)

lemma map_of_js_set:
  "map_of (js_set obj k v) = (if k = js ''__proto__'' then map_of obj else (map_of obj)(k \<mapsto> v))"
proof -
  have "map_of (obj @ [(k, v)]) = (map_of obj)(k \<mapsto> v)" if "k \<notin> set (map fst obj)"
  proof -
    from that have "map_of obj k = None" by (simp add: map_of_eq_None_iff)
    then show ?thesis by (auto simp: fun_eq_iff map_add_def split: option.splits)
  qed
  then show ?thesis
    by (simp add: js_set_def map_of_replace_prop map_of_insert_index del: set_map)
qed

lemma filter_step:
  "(case p of (key, v) \<Rightarrow> \<lambda>filteredParams.
      if key \<notin> ex \<and> isValidValue v then js_set filteredParams key v else filteredParams) acc
   = (if fst p \<notin> ex \<and> isValidValue (snd p) then js_set acc (fst p) (snd p) else acc)"
  by (cases p) simp

lemma distinct_filter_fold:
  "distinct (map fst acc) \<Longrightarrow>
   distinct (map fst (fold (\<lambda>(key, v) filteredParams.
      if key \<notin> ex \<and> isValidValue v then js_set filteredParams key v else filteredParams) ps acc))"
  by (induction ps arbitrary: acc) (auto simp: distinct_js_set simp del: set_map)

lemma distinct_filterParams: "distinct (map fst (filterParams ex ps))"
  by (simp add: filterParams_def distinct_filter_fold)

lemma map_of_filter_fold:
  "map_of (fold (\<lambda>(key, v) filteredParams.
      if key \<notin> ex \<and> isValidValue v then js_set filteredParams key v else filteredParams) ps acc)
   = map_of acc ++ map_of (rev (filter (kept ex) ps))"
proof (induction ps arbitrary: acc)
  case Nil
  show ?case by simp
next
  case (Cons p ps)
  obtain k v where p: "p = (k, v)" by (cases p)
  show ?case
  proof (cases "kept ex p")
    case True
    then have "map_of (js_set acc k v) = (map_of acc)(k \<mapsto> v)"
      using p by (simp add: kept_def map_of_js_set)
    with True p show ?thesis
      by (simp add: Cons kept_def fun_eq_iff map_add_def split: option.splits)
  next
    case False
    then have "(if k \<notin> ex \<and> isValidValue v then js_set acc k v else acc) = acc \<or>
               map_of (if k \<notin> ex \<and> isValidValue v then js_set acc k v else acc) = map_of acc"
      using p by (auto simp: kept_def map_of_js_set)
    then have "map_of (if k \<notin> ex \<and> isValidValue v then js_set acc k v else acc) = map_of acc"
      by auto
    with False p show ?thesis by (simp add: Cons del: map_of_js_set)
  qed
qed

lemma map_of_filterParams: "map_of (filterParams ex ps) = map_of (rev (filter (kept ex) ps))"
  by (simp add: filterParams_def map_of_filter_fold)

lemma map_of_kept:
  "distinct (map fst ps) \<Longrightarrow>
   map_of (rev (filter Q ps)) =
     (\<lambda>x. case map_of ps x of None \<Rightarrow> None | Some v \<Rightarrow> if Q (x, v) then Some v else None)"
proof (induction ps)
  case Nil
  show ?case by simp
next
  case (Cons p ps)
  obtain k v where p: "p = (k, v)" by (cases p)
  from Cons.prems p have k: "map_of ps k = None" and d: "distinct (map fst ps)"
    by (auto simp: map_of_eq_None_iff)
  note IH = Cons.IH [OF d]
  have f: "map_of (rev (filter Q ps)) k = None"
    using k by (simp add: IH)
  show ?case
  proof
    fix x
    show "map_of (rev (filter Q (p # ps))) x =
          (case map_of (p # ps) x of None \<Rightarrow> None | Some v \<Rightarrow> if Q (x, v) then Some v else None)"
    proof (cases "x = k")
      case True
      with p f show ?thesis by (simp add: map_add_def)
    next
      case False
      with p show ?thesis by (simp add: IH map_add_def split: option.splits)
    qed
  qed
qed

lemma keys_filterParams:
  "distinct (map fst ps) \<Longrightarrow>
   set (map fst (filterParams ex ps)) = {k. \<exists>v. map_of ps k = Some v \<and> kept ex (k, v)}"
proof -
  assume d: "distinct (map fst ps)"
  have "set (map fst (filterParams ex ps)) = dom (map_of (filterParams ex ps))"
    by (simp add: dom_map_of_conv_image_fst)
  also have "\<dots> = {k. \<exists>v. map_of ps k = Some v \<and> kept ex (k, v)}"
    by (auto simp: map_of_filterParams map_of_kept [OF d] dom_def split: option.splits if_splits)
  finally show ?thesis .
qed

lemma sign_parts_cong:
  "(\<And>k. k \<in> set keys \<Longrightarrow> normalizeValue (js_get A k) = normalizeValue (js_get B k)) \<Longrightarrow>
   sign_parts A keys = sign_parts B keys"
  by (induction keys) (simp_all split: sum.splits)

lemma sort_keys_eq:
  assumes "distinct (map fst A)" and "distinct (map fst B)"
    and "set (map fst A) = set (map fst B)"
  shows "sort (map fst A) = sort (map fst B)"
  using assms by (intro sorted_distinct_set_unique) simp_all

lemma buildSignString_cong:
  assumes "distinct (map fst A)" and "distinct (map fst B)"
    and "set (map fst A) = set (map fst B)"
    and "\<And>k. k \<in> set (map fst A) \<Longrightarrow> normalizeValue (js_get A k) = normalizeValue (js_get B k)"
  shows "buildSignString A = buildSignString B"
proof -
  have "sort (map fst A) = sort (map fst B)" using assms(1-3) by (rule sort_keys_eq)
  moreover have "sign_parts A (sort (map fst A)) = sign_parts B (sort (map fst A))"
    using assms(4) by (intro sign_parts_cong) simp
  ultimately show ?thesis by (simp add: buildSignString_def)
qed

lemma buildSignString_map_of:
  assumes "distinct (map fst A)" and "distinct (map fst B)" and "map_of A = map_of B"
  shows "buildSignString A = buildSignString B"
proof (rule buildSignString_cong [OF assms(1,2)])
  have "dom (map_of A) = dom (map_of B)" using assms(3) by simp
  then show "set (map fst A) = set (map fst B)" by (simp add: dom_map_of_conv_image_fst)
  show "normalizeValue (js_get A k) = normalizeValue (js_get B k)" for k
    using assms(3) by (simp add: js_get_def)
qed

lemma same_signed_build: "same_signed A B \<Longrightarrow> buildSignString A = buildSignString B"
  unfolding same_signed_def by (intro buildSignString_cong) blast+

lemma js_get_js_set:
  "k \<noteq> js ''__proto__'' \<Longrightarrow> js_get (js_set A k v) x = (if x = k then v else js_get A x)"
  by (simp add: js_get_def map_of_js_set)

lemma same_signed_js_set:
  assumes "same_signed A B"
  shows "same_signed (js_set A k v) (js_set B k v)"
proof (cases "k = js ''__proto__''")
  case True
  with assms show ?thesis by (simp add: js_set_def)
next
  case False
  from assms have keys: "set (map fst A) = set (map fst B)"
    and vals: "\<And>x. x \<in> set (map fst A) \<Longrightarrow>
                 normalizeValue (js_get A x) = normalizeValue (js_get B x)"
    and d: "distinct (map fst A)" "distinct (map fst B)"
    unfolding same_signed_def by blast+
  have "set (map fst (js_set A k v)) = set (map fst (js_set B k v))"
    using keys by (simp only: keys_js_set)
  moreover have "normalizeValue (js_get (js_set A k v) x) = normalizeValue (js_get (js_set B k v) x)"
    if "x \<in> set (map fst (js_set A k v))" for x
  proof (cases "x = k")
    case True
    with False show ?thesis by (simp add: js_get_js_set)
  next
    case x: False
    with that False have "x \<in> set (map fst A)" by (simp add: keys_js_set del: set_map)
    with x False vals show ?thesis by (simp add: js_get_js_set del: set_map)
  qed
  ultimately show ?thesis
    using d unfolding same_signed_def by (simp add: distinct_js_set del: set_map)
qed

lemma js_get_map_of: "map_of A k = Some v \<Longrightarrow> js_get A k = v"
  by (simp add: js_get_def)

lemma map_of_js_get: "k \<in> set (map fst A) \<Longrightarrow> map_of A k = Some (js_get A k)"
  by (cases "map_of A k") (auto simp: js_get_def map_of_eq_None_iff)

lemma filterParams_key_iff:
  assumes "distinct (map fst P)"
  shows "k \<in> set (map fst (filterParams ex P)) \<longleftrightarrow>
         k \<in> set (map fst P) \<and> kept ex (k, js_get P k)"
proof -
  have "k \<in> set (map fst (filterParams ex P)) \<longleftrightarrow> (\<exists>v. map_of P k = Some v \<and> kept ex (k, v))"
    by (simp add: keys_filterParams [OF assms] del: set_map)
  also have "\<dots> \<longleftrightarrow> k \<in> set (map fst P) \<and> kept ex (k, js_get P k)"
  proof
    assume "\<exists>v. map_of P k = Some v \<and> kept ex (k, v)"
    then obtain v where v: "map_of P k = Some v" "kept ex (k, v)" by blast
    from v(1) have "(k, v) \<in> set P" by (rule map_of_SomeD)
    then have "fst (k, v) \<in> fst ` set P" by (rule imageI)
    then have "k \<in> set (map fst P)" by simp
    with v show "k \<in> set (map fst P) \<and> kept ex (k, js_get P k)"
      by (simp add: js_get_map_of del: set_map)
  next
    assume "k \<in> set (map fst P) \<and> kept ex (k, js_get P k)"
    then show "\<exists>v. map_of P k = Some v \<and> kept ex (k, v)"
      using map_of_js_get [of k P] by blast
  qed
  finally show ?thesis .
qed

lemma filterParams_get:
  assumes "distinct (map fst P)" and "k \<in> set (map fst (filterParams ex P))"
  shows "js_get (filterParams ex P) k = js_get P k"
proof -
  from assms have k: "k \<in> set (map fst P)" "kept ex (k, js_get P k)"
    by (simp_all add: filterParams_key_iff del: set_map)
  then have "map_of P k = Some (js_get P k)" by (simp add: map_of_js_get del: set_map)
  with k have "map_of (filterParams ex P) k = Some (js_get P k)"
    by (simp add: map_of_filterParams map_of_kept [OF assms(1)])
  then show ?thesis by (rule js_get_map_of)
qed

lemma replace_prop_keys_distinct:
  "distinct (map fst P) \<Longrightarrow> distinct (map fst (replace_prop k v P))"
  by (simp add: keys_replace_prop)

section \<open>The shape of a signature\<close>

lemma length_compress: "length (compress hs block) = 8"
  by (simp add: compress_def split: prod.split)

lemma length_sha_blocks: "length hs = 8 \<Longrightarrow> length (sha_blocks n hs ws) = 8"
  by (induction n arbitrary: hs ws) (simp_all add: length_compress)

lemma length_concat_words: "length (concat (map bytes_of_word32 xs)) = 4 * length xs"
  by (induction xs) (simp_all add: bytes_of_word32_def)

lemma length_sha256: "length (sha256 m) = 32"
  by (simp add: sha256_def Let_def length_concat_words length_sha_blocks H256_def)

lemma length_hmac_sha256: "length (hmac_sha256 key msg) = 32"
  by (simp add: hmac_sha256_def Let_def length_sha256)

lemma length_hex_digest: "length (hex_digest bs) = 2 * length bs"
  by (induction bs) (simp_all add: hex_digest_def)

lemma unat_unit_of_nat: "m < 65536 \<Longrightarrow> unat (word_of_nat m :: 16 word) = m"
  by (simp only: unat_of_nat) simp

lemma hex_lower_is_hex:
  assumes "n < 16"
  shows "is_hex_lower (hex_lower n)"
proof -
  have "unat (word_of_nat (48 + n) :: 16 word) = 48 + n"
    and "unat (word_of_nat (87 + n) :: 16 word) = 87 + n"
    using assms by (simp_all only: unat_unit_of_nat)
  with assms show ?thesis
    unfolding is_hex_lower_def hex_lower_def word_le_nat_alt
    by (simp del: of_nat_add)
qed

lemma hex_digest_is_hex: "list_all is_hex_lower (hex_digest bs)"
proof (induction bs)
  case Nil
  show ?case by (simp add: hex_digest_def)
next
  case (Cons b bs)
  have "unat b < 256" using unsigned_less [of b, where ?'a = nat] by simp
  then have "unat b div 16 < 16" by simp
  then show ?case using Cons by (simp add: hex_digest_def hex_lower_is_hex)
qed

section \<open>The comparison of signatures\<close>

text \<open>
  The UTF-8 encoding of a string that is not ASCII contains a byte of at least
  \<open>0x80\<close>, so a string has the bytes of an ASCII string only if it is that string.
\<close>

lemma utf8_bytes_ascii: "cp < 0x80 \<Longrightarrow> utf8_bytes cp = [of_nat cp]"
  by (simp add: utf8_bytes_def)

lemma unat_byte_of_nat: "n < 256 \<Longrightarrow> unat (word_of_nat n :: 8 word) = n"
  by (simp only: unat_of_nat) simp

lemma utf8_bytes_high:
  assumes "0x80 \<le> cp" and "cp < 0x110000"
  shows "utf8_bytes cp \<noteq> [] \<and> 0x80 \<le> hd (utf8_bytes cp)"
proof -
  consider "cp < 0x800" | "0x800 \<le> cp" "cp < 0x10000" | "0x10000 \<le> cp" by linarith
  then show ?thesis
  proof cases
    case 1
    then have "0xC0 + cp div 64 < 256" by simp
    then have "unat (word_of_nat (0xC0 + cp div 64) :: 8 word) = 0xC0 + cp div 64"
      by (rule unat_byte_of_nat)
    with 1 assms show ?thesis
      by (simp add: utf8_bytes_def word_le_nat_alt del: of_nat_add)
  next
    case 2
    then have "0xE0 + cp div 4096 < 256" by simp
    then have "unat (word_of_nat (0xE0 + cp div 4096) :: 8 word) = 0xE0 + cp div 4096"
      by (rule unat_byte_of_nat)
    with 2 assms show ?thesis
      by (simp add: utf8_bytes_def word_le_nat_alt del: of_nat_add)
  next
    case 3
    with assms have "0xF0 + cp div 262144 < 256" by simp
    then have "unat (word_of_nat (0xF0 + cp div 262144) :: 8 word) = 0xF0 + cp div 262144"
      by (rule unat_byte_of_nat)
    with 3 assms show ?thesis
      by (simp add: utf8_bytes_def word_le_nat_alt del: of_nat_add)
  qed
qed


lemma pair_code_point_range:
  "is_high c \<Longrightarrow> is_low d \<Longrightarrow> 0x10000 \<le> pair_code_point c d \<and> pair_code_point c d < 0x110000"
proof -
  assume "is_high c" "is_low d"
  then have "0xD800 \<le> unat c" "unat c \<le> 0xDBFF" "0xDC00 \<le> unat d" "unat d \<le> 0xDFFF"
    by (simp_all add: is_high_def is_low_def word_le_nat_alt)
  then show ?thesis by (simp add: pair_code_point_def)
qed

lemma ascii_not_surrogate: "ascii c \<Longrightarrow> \<not> is_high c \<and> \<not> is_low c"
  by (simp add: ascii_def is_high_def is_low_def word_le_nat_alt word_less_nat_alt)

lemma unit_bytes_ascii: "ascii c \<Longrightarrow> utf8_bytes (unat c) = [ucast c]"
proof -
  assume "ascii c"
  then have "unat c < 0x80" by (simp add: ascii_def word_less_nat_alt)
  then show ?thesis by (simp add: utf8_bytes_def)
qed

lemma Buffer_from_ascii: "list_all ascii s \<Longrightarrow> Buffer_from s = map ucast s"
proof (induction s rule: Buffer_from.induct)
  case 1
  show ?case by simp
next
  case (2 c)
  then show ?case by (simp add: ascii_not_surrogate unit_bytes_ascii)
next
  case (3 c d cs)
  then show ?case by (simp add: ascii_not_surrogate unit_bytes_ascii)
qed

lemma unit_bytes_high:
  assumes "\<not> ascii c"
  shows "utf8_bytes (unat c) \<noteq> [] \<and> 0x80 \<le> hd (utf8_bytes (unat c))"
proof -
  from assms have "0x80 \<le> unat c" by (simp add: ascii_def word_less_nat_alt)
  moreover have "unat c < 0x110000" using unsigned_less [of c, where ?'a = nat] by simp
  ultimately show ?thesis by (rule utf8_bytes_high)
qed

lemma replacement_bytes: "utf8_bytes 0xFFFD \<noteq> [] \<and> 0x80 \<le> hd (utf8_bytes 0xFFFD)"
  by (rule utf8_bytes_high) simp_all

lemma Buffer_from_head:
  "\<not> ascii c \<Longrightarrow> Buffer_from (c # cs) \<noteq> [] \<and> 0x80 \<le> hd (Buffer_from (c # cs))"
proof (cases cs)
  case Nil
  assume "\<not> ascii c"
  with Nil show ?thesis using unit_bytes_high [of c] replacement_bytes by simp
next
  case (Cons d ds)
  assume n: "\<not> ascii c"
  have p: "utf8_bytes (pair_code_point c d) \<noteq> [] \<and> 0x80 \<le> hd (utf8_bytes (pair_code_point c d))"
    if "is_high c" "is_low d"
    using pair_code_point_range [OF that] by (intro utf8_bytes_high) simp_all
  show ?thesis
    using Cons unit_bytes_high [OF n] replacement_bytes p by auto
qed

lemma unat_ucast_byte: "unat c < 256 \<Longrightarrow> unat (ucast (c :: 16 word) :: 8 word) = unat c"
  by (simp add: unsigned_ucast_eq take_bit_nat_eq_self)

lemma ucast_unit_inj: "ascii c \<Longrightarrow> ascii d \<Longrightarrow> (ucast c :: 8 word) = ucast d \<Longrightarrow> c = d"
proof -
  assume a: "ascii c" "ascii d" and e: "(ucast c :: 8 word) = ucast d"
  from a have "unat c < 256" "unat d < 256" by (simp_all add: ascii_def word_less_nat_alt)
  then have "unat (ucast c :: 8 word) = unat c" "unat (ucast d :: 8 word) = unat d"
    by (simp_all add: unat_ucast_byte)
  with e have "unat c = unat d" by simp
  then show ?thesis by (simp add: word_unat_eq_iff)
qed

lemma ucast_ascii_small: "ascii c \<Longrightarrow> (ucast c :: 8 word) < 0x80"
proof -
  assume a: "ascii c"
  then have "unat c < 0x80" by (simp add: ascii_def word_less_nat_alt)
  then have "unat (ucast c :: 8 word) = unat c" by (simp add: unat_ucast_byte)
  with \<open>unat c < 0x80\<close> show ?thesis by (simp add: word_less_nat_alt)
qed

lemma Buffer_from_eq_ascii:
  "list_all ascii e \<Longrightarrow> Buffer_from s = Buffer_from e \<Longrightarrow> s = e"
proof (induction e arbitrary: s)
  case Nil
  show ?case
  proof (cases s)
    case Nil
    then show ?thesis by simp
  next
    case (Cons c cs)
    show ?thesis
    proof (cases "ascii c")
      case True
      have "Buffer_from (c # cs) \<noteq> []"
        using True by (cases cs) (simp_all add: ascii_not_surrogate unit_bytes_ascii)
      with Nil Cons show ?thesis by simp
    next
      case False
      with Nil Cons show ?thesis using Buffer_from_head [OF False, of cs] by simp
    qed
  qed
next
  case (Cons x e)
  then have x: "ascii x" and e: "list_all ascii e" by simp_all
  have be: "Buffer_from (x # e) = ucast x # Buffer_from e"
    using x by (cases e) (simp_all add: ascii_not_surrogate unit_bytes_ascii)
  show ?case
  proof (cases s)
    case Nil
    with Cons.prems be show ?thesis by simp
  next
    case s: (Cons c cs)
    show ?thesis
    proof (cases "ascii c")
      case True
      have bs: "Buffer_from (c # cs) = ucast c # Buffer_from cs"
        using True by (cases cs) (simp_all add: ascii_not_surrogate unit_bytes_ascii)
      with Cons.prems(2) s be have "(ucast c :: 8 word) = ucast x" "Buffer_from cs = Buffer_from e"
        by simp_all
      with True x e Cons.IH [of cs] s show ?thesis by (simp add: ucast_unit_inj)
    next
      case False
      from Buffer_from_head [OF False, of cs] Cons.prems(2) s be
      have "(0x80 :: 8 word) \<le> ucast x" by simp
      with ucast_ascii_small [OF x] show ?thesis by simp
    qed
  qed
qed

lemma hex_is_ascii: "is_hex_lower c \<Longrightarrow> ascii c"
  by (auto simp: is_hex_lower_def ascii_def word_le_nat_alt word_less_nat_alt)

lemma hex_digest_ascii: "list_all ascii (hex_digest bs)"
  using hex_digest_is_hex [of bs] by (simp add: list_all_iff hex_is_ascii)

section \<open>When signing returns\<close>

text \<open>
  \<^verbatim>\<open>encodeURIComponent\<close> returns exactly on the strings without unpaired
  surrogates, and otherwise throws \<^verbatim>\<open>URIError\<close>.
\<close>

lemma unreserved_not_surrogate: "uri_unreserved c \<Longrightarrow> \<not> is_high c \<and> \<not> is_low c"
  by (auto simp: uri_unreserved_def is_high_def is_low_def word_le_nat_alt)

lemma high_not_low: "is_high c \<Longrightarrow> \<not> is_low c"
  by (simp add: is_high_def is_low_def word_le_nat_alt)

lemma prepend_Inr: "prepend s r = Inr t \<longleftrightarrow> (\<exists>u. r = Inr u \<and> t = s @ u)"
  by (cases r) (auto simp: prepend_def)

lemma prepend_Inl: "prepend s r = Inl e \<longleftrightarrow> r = Inl e"
  by (cases r) (auto simp: prepend_def)

lemma encodeURIComponent_returns:
  "(\<exists>t. encodeURIComponent s = Inr t) \<longleftrightarrow> well_formed s"
proof (induction s rule: well_formed.induct)
  case 1
  show ?case by simp
next
  case (2 c)
  show ?case
    using unreserved_not_surrogate [of c] by (auto simp: prepend_def)
next
  case (3 c d cs)
  show ?case
  proof (cases "is_high c")
    case True
    then have "\<not> uri_unreserved c" "\<not> is_low c"
      using unreserved_not_surrogate [of c] high_not_low [of c] by auto
    with True 3 show ?thesis by (auto simp: prepend_Inr)
  next
    case False
    show ?thesis
    proof (cases "is_low c")
      case True
      then have "\<not> uri_unreserved c" using unreserved_not_surrogate [of c] by auto
      with True False show ?thesis by simp
    next
      case low: False
      with False 3 show ?thesis by (auto simp: prepend_Inr)
    qed
  qed
qed

lemma encodeURIComponent_error: "encodeURIComponent s = Inl e \<Longrightarrow> e = URIError"
  by (induction s arbitrary: e rule: encodeURIComponent.induct)
    (auto simp: prepend_Inl split: if_splits list.splits)

text \<open>
  What \<^verbatim>\<open>JSON.stringify\<close> and the conversion of numbers produce has no unpaired
  surrogate: the former escapes them, the latter is ASCII.
\<close>

lemma well_formed_append:
  "well_formed a \<Longrightarrow> well_formed b \<Longrightarrow> well_formed (a @ b)"
proof (induction a rule: well_formed.induct)
  case 1
  then show ?case by simp
next
  case (2 c)
  then show ?case by (cases b) simp_all
next
  case (3 c d cs)
  then show ?case by (simp split: if_splits)
qed

lemma well_formed_ascii: "list_all ascii s \<Longrightarrow> well_formed s"
  by (induction s rule: well_formed.induct) (simp_all add: ascii_not_surrogate)

lemma well_formed_join:
  "well_formed sep \<Longrightarrow> list_all well_formed xs \<Longrightarrow> well_formed (join sep xs)"
  by (induction sep xs rule: join.induct) (simp_all add: well_formed_append)

lemma hex_lower_ascii: "n < 16 \<Longrightarrow> ascii (hex_lower n)"
  using hex_lower_is_hex [of n] hex_is_ascii by blast

lemma unicode_escape_ascii: "list_all ascii (unicode_escape c)"
proof -
  have "unat c < 65536" using unsigned_less [of c, where ?'a = nat] by simp
  then have "unat c div 4096 < 16" by simp
  then show ?thesis
    by (simp add: unicode_escape_def Let_def hex_lower_ascii) (simp add: ascii_def)
qed

lemma quote_unit_well_formed: "well_formed (quote_unit c)"
proof -
  have "well_formed (unicode_escape c)"
    by (intro well_formed_ascii unicode_escape_ascii)
  then show ?thesis
    by (simp add: quote_unit_def) (simp add: is_high_def is_low_def)
qed

lemma quote_body_well_formed: "well_formed (quote_body s)"
  by (induction s rule: quote_body.induct)
    (simp_all add: quote_unit_well_formed well_formed_append)

lemma quote_mark: "\<not> is_high 0x22 \<and> \<not> is_low 0x22"
  by (simp add: is_high_def is_low_def)

lemma QuoteJSONString_well_formed: "well_formed (QuoteJSONString s)"
proof -
  have "well_formed [0x22]" by (simp add: quote_mark)
  then show ?thesis
    unfolding QuoteJSONString_def
    by (intro well_formed_append quote_body_well_formed)
qed

lemma digits10_small: "list_all (\<lambda>d. d < 10) (digits10 n)"
proof (induction n rule: digits10.induct)
  case (1 n)
  show ?case
  proof (cases "n < 10")
    case True
    then show ?thesis by (simp add: digits10.simps [of n])
  next
    case False
    with 1 show ?thesis by (simp add: digits10.simps [of n])
  qed
qed

lemma digit_chars_ascii: "list_all (\<lambda>d. d < 10) ds \<Longrightarrow> list_all ascii (digit_chars ds)"
proof (induction ds)
  case Nil
  show ?case by (simp add: digit_chars_def)
next
  case (Cons d ds)
  then have "48 + d < 65536" by simp
  then have "unat (word_of_nat (48 + d) :: 16 word) = 48 + d" by (rule unat_unit_of_nat)
  with Cons show ?case
    by (simp add: digit_chars_def ascii_def word_less_nat_alt del: of_nat_add)
qed

lemma list_all_take: "list_all P xs \<Longrightarrow> list_all P (take n xs)"
  by (auto simp: list_all_iff dest: in_set_takeD)

lemma list_all_drop: "list_all P xs \<Longrightarrow> list_all P (drop n xs)"
  by (auto simp: list_all_iff dest: in_set_dropD)

lemma list_all_replicate: "P x \<Longrightarrow> list_all P (replicate n x)"
  by (induction n) simp_all

lemma number_layout_ascii:
  assumes "list_all (\<lambda>d. d < 10) ds"
  shows "list_all ascii
     (if k \<le> n \<and> n \<le> 21 then digit_chars ds @ replicate (nat (n - k)) 0x30
      else if 0 < n \<and> n \<le> 21 then
        digit_chars (take (nat n) ds) @ [0x2E] @ digit_chars (drop (nat n) ds)
      else if - 6 < n \<and> n \<le> 0 then
        [0x30, 0x2E] @ replicate (nat (- n)) 0x30 @ digit_chars ds
      else if k = (1 :: int) then
        digit_chars ds @ [0x65, if n - 1 < 0 then 0x2D else 0x2B] @
        digit_chars (digits10 (nat \<bar>n - 1\<bar>))
      else
        digit_chars (take 1 ds) @ [0x2E] @ digit_chars (drop 1 ds) @
        [0x65, if n - 1 < 0 then 0x2D else 0x2B] @ digit_chars (digits10 (nat \<bar>n - 1\<bar>)))"
proof -
  have d: "list_all ascii (digit_chars ds)" "list_all ascii (digit_chars (take i ds))"
    "list_all ascii (digit_chars (drop i ds))" "list_all ascii (digit_chars (digits10 j))" for i j
    using assms by (intro digit_chars_ascii list_all_take list_all_drop digits10_small; assumption)+
  have c: "ascii 0x30" "ascii 0x2E" "ascii 0x65" "ascii 0x2D" "ascii 0x2B"
    by (simp_all add: ascii_def)
  show ?thesis
    by (simp add: d c list_all_replicate)
qed

lemma positive_to_string_ascii: "list_all ascii (positive_to_string m e)"
  unfolding positive_to_string_def Let_def
  by (rule number_layout_ascii) (intro list_all_take digits10_small)

lemma number_to_string_ascii: "list_all ascii (number_to_string x)"
proof (cases x)
  case (Dec m e)
  have "ascii 0x2D" by (simp add: ascii_def)
  with Dec show ?thesis
    by (simp add: number_to_string_def positive_to_string_ascii)
      (simp add: js_def ascii_def)
qed (simp_all add: number_to_string_def js_def ascii_def)

lemma literal_well_formed:
  "well_formed (js ''null'')" "well_formed (js ''true'')" "well_formed (js ''false'')"
  "well_formed (js ''undefined'')" "well_formed (js ''timestamp'')"
  "well_formed [0x2C]" "well_formed [0x5B]" "well_formed [0x5D]" "well_formed [0x7B]"
  "well_formed [0x7D]" "well_formed [0x3A]"
  by (simp_all add: js_def is_high_def is_low_def)

lemma JSON_well_formed:
  "JSON_stringify v = Some s \<longrightarrow> well_formed s"
  "list_all well_formed (JSON_elems xs)"
  "list_all well_formed (JSON_props ps)"
proof (induction v and xs and ps arbitrary: s rule: JSON_stringify_JSON_elems_JSON_props.induct)
  case (4 x)
  have "well_formed (number_to_string x)"
    by (intro well_formed_ascii number_to_string_ascii)
  then show ?case by (cases x) (auto simp: literal_well_formed)
next
  case (5 t)
  show ?case by (auto simp: QuoteJSONString_well_formed)
next
  case (6 xs)
  then have "well_formed (join [0x2C] (JSON_elems xs))"
    by (intro well_formed_join literal_well_formed)
  then have "well_formed ([0x5B] @ join [0x2C] (JSON_elems xs) @ [0x5D])"
    by (intro well_formed_append literal_well_formed)
  then show ?case by auto
next
  case (7 kvs)
  then have "well_formed (join [0x2C] (JSON_props kvs))"
    by (intro well_formed_join literal_well_formed)
  then have "well_formed ([0x7B] @ join [0x2C] (JSON_props kvs) @ [0x7D])"
    by (intro well_formed_append literal_well_formed)
  then show ?case by auto
next
  case (9 x xs)
  then show ?case by (cases "JSON_stringify x") (simp_all add: literal_well_formed)
next
  case (11 p ps)
  show ?case
  proof (cases "JSON_stringify (snd p)")
    case None
    with 11 show ?thesis by simp
  next
    case (Some t)
    with 11 have "well_formed t" "list_all well_formed (JSON_props ps)" by simp_all
    then have "well_formed (QuoteJSONString (fst p) @ [0x3A] @ t)"
      by (intro well_formed_append QuoteJSONString_well_formed literal_well_formed)
    with Some \<open>list_all well_formed (JSON_props ps)\<close> show ?thesis by simp
  qed
qed (auto simp: literal_well_formed)

text \<open>
  So \<^verbatim>\<open>generateSignature\<close> returns whenever the keys and the string values of the
  parameters have no unpaired surrogate, and \<^verbatim>\<open>URIError\<close> is the only exception
  it throws.
\<close>

lemma normalizeValue_returns:
  "\<exists>s. normalizeValue v = Inr s \<and> (value_encodable v \<longrightarrow> well_formed s)"
proof (cases v)
  case (JArr xs)
  then show ?thesis
    using JSON_well_formed(1) [of "sortObjectKeys v"]
    by (auto simp: normalizeValue_def literal_well_formed split: option.splits)
next
  case (JObj kvs)
  then show ?thesis
    using JSON_well_formed(1) [of "sortObjectKeys v"]
    by (auto simp: normalizeValue_def literal_well_formed split: option.splits)
next
  case (JNum x)
  have "well_formed (number_to_string x)"
    by (intro well_formed_ascii number_to_string_ascii)
  with JNum show ?thesis by (simp add: normalizeValue_def)
qed (simp_all add: normalizeValue_def value_encodable_def literal_well_formed)

lemma sign_parts_returns:
  "(\<And>k. k \<in> set keys \<Longrightarrow> well_formed k \<and> value_encodable (js_get params k)) \<Longrightarrow>
   \<exists>parts. sign_parts params keys = Inr parts"
proof (induction keys)
  case Nil
  show ?case by simp
next
  case (Cons key keys)
  obtain v where v: "normalizeValue (js_get params key) = Inr v" "well_formed v"
    using normalizeValue_returns [of "js_get params key"] Cons.prems [of key] by auto
  obtain ek where ek: "encodeURIComponent key = Inr ek"
    using encodeURIComponent_returns [of key] Cons.prems [of key] by auto
  obtain ev where ev: "encodeURIComponent v = Inr ev"
    using encodeURIComponent_returns [of v] v(2) by auto
  obtain parts where "sign_parts params keys = Inr parts"
    using Cons.IH Cons.prems by auto
  with v ek ev show ?case by simp
qed

lemma sign_parts_error: "sign_parts params keys = Inl e \<Longrightarrow> e = URIError"
proof (induction keys)
  case Nil
  then show ?case by simp
next
  case (Cons key keys)
  obtain v where v: "normalizeValue (js_get params key) = Inr v"
    using normalizeValue_returns [of "js_get params key"] by auto
  with Cons show ?case
    by (auto split: sum.splits dest: encodeURIComponent_error)
qed

lemma filterParams_entry:
  assumes "k \<in> set (map fst (filterParams ex P))"
  shows "(k, js_get (filterParams ex P) k) \<in> set P"
proof -
  from assms have "map_of (filterParams ex P) k = Some (js_get (filterParams ex P) k)"
    by (rule map_of_js_get)
  then have "map_of (rev (filter (kept ex) P)) k = Some (js_get (filterParams ex P) k)"
    by (simp add: map_of_filterParams)
  then have "(k, js_get (filterParams ex P) k) \<in> set (rev (filter (kept ex) P))"
    by (rule map_of_SomeD)
  then show ?thesis by simp
qed

lemma encodableD: "encodable P \<Longrightarrow> (k, v) \<in> set P \<Longrightarrow> well_formed k \<and> value_encodable v"
  by (auto simp: encodable_def value_encodable_def list_all_iff)

lemma buildSignString_returns:
  assumes "\<And>k. k \<in> set (map fst A) \<Longrightarrow> well_formed k \<and> value_encodable (js_get A k)"
  shows "\<exists>s. buildSignString A = Inr s"
proof -
  have "\<exists>parts. sign_parts A (sort (map fst A)) = Inr parts"
    using assms by (intro sign_parts_returns) simp
  then show ?thesis by (auto simp: buildSignString_def)
qed

lemma signString_returns:
  assumes "encodable params"
  shows "\<exists>s. signString params timestamp excludeKeys = Inr s"
proof -
  define ex where "ex = (case excludeKeys of None \<Rightarrow> defaultExcludeKeys | Some ks \<Rightarrow> ks)"
  have f: "well_formed k \<and> value_encodable (js_get (filterParams ex params) k)"
    if "k \<in> set (map fst (filterParams ex params))" for k
    using encodableD [OF assms filterParams_entry [OF that]] .
  show ?thesis
  proof (cases timestamp)
    case None
    with buildSignString_returns [of "filterParams ex params", OF f] show ?thesis
      by (simp add: signString_def ex_def)
  next
    case (Some t)
    let ?A = "js_set (filterParams ex params) (js ''timestamp'') (JNum t)"
    have ts: "js ''timestamp'' \<noteq> js ''__proto__''" by (simp add: js_def)
    have "well_formed k \<and> value_encodable (js_get ?A k)" if "k \<in> set (map fst ?A)" for k
    proof (cases "k = js ''timestamp''")
      case True
      with ts show ?thesis
        by (simp add: js_get_js_set literal_well_formed value_encodable_def)
    next
      case False
      with that ts have "k \<in> set (map fst (filterParams ex params))"
        by (simp add: keys_js_set del: set_map)
      with f [of k] False ts show ?thesis by (simp add: js_get_js_set del: set_map)
    qed
    then have "\<exists>s. buildSignString ?A = Inr s" by (rule buildSignString_returns)
    with Some show ?thesis by (simp add: signString_def ex_def)
  qed
qed

lemma signString_error: "signString params timestamp excludeKeys = Inl e \<Longrightarrow> e = URIError"
  by (auto simp: signString_def buildSignString_def Let_def split: sum.splits option.splits
      dest: sign_parts_error)

lemma generateSignature_returns:
  "encodable params \<Longrightarrow> \<exists>sig. generateSignature this params timestamp excludeKeys = Inr sig"
  using signString_returns [of params timestamp excludeKeys]
  by (auto simp: generateSignature_def)








section \<open>Signatures have 64 hexadecimal digits\<close>





section \<open>Round trip\<close>

text \<open>
  Claim C1: the signature that \<^verbatim>\<open>generateSignature\<close> returns for the parameters,
  with the default exclude set and no external timestamp, is accepted by
  \<^verbatim>\<open>validate\<close> without a tolerance, whatever the clock shows and whatever the
  secret; and such a signature exists whenever no key and no string value of the
  parameters has an unpaired surrogate.
\<close>

theorem round_trip:
  "(generateSignature this params None None = Inr sig \<longrightarrow>
      validate this now params sig None = Inr True) \<and>
   (encodable params \<longrightarrow>
      (\<exists>sig'. generateSignature this params None None = Inr sig' \<and>
              validate this now params sig' None = Inr True))"
proof (intro conjI impI)
  show "validate this now params s None = Inr True"
    if "generateSignature this params None None = Inr s" for s
    using that by (simp add: validate_def timingSafeEqual_def)
  then show "\<exists>sig'. generateSignature this params None None = Inr sig' \<and>
              validate this now params sig' None = Inr True"
    if "encodable params"
    using generateSignature_returns [OF that, of this None None] by blast
qed

text \<open>
  The example validator is what the constructor returns, and the example parameters
  validate against their own signature.
\<close>

theorem round_trip_witness:
  "constructor (js ''your_secret_key_here'') = Inr demo \<and> encodable P5 \<and>
   generateSignature demo P5 None None = Inr sigP5 \<and>
   validate demo 1700000000000 P5 sigP5 None = Inr True"
proof -
  have "constructor (js ''your_secret_key_here'') = Inr demo"
    by (simp add: constructor_def demo_def trim_def js_def js_whitespace_def)
  moreover have "encodable P5"
    by (simp add: encodable_def value_encodable_def P5_def js_def is_high_def is_low_def)
  ultimately show ?thesis
    using round_trip [of demo P5 sigP5 1700000000000] generateSignature_P5 by simp
qed

section \<open>The verdict of \<^verbatim>\<open>validate\<close>\<close>

text \<open>
  Without a tolerance, \<^verbatim>\<open>validate\<close> returns \<^verbatim>\<open>true\<close> for the expected signature
  and \<^verbatim>\<open>false\<close> for every other string, in particular for one whose length is not 64;
  a timestamp that \<^verbatim>\<open>parseInt\<close> cannot read gives \<^verbatim>\<open>false\<close> when a tolerance
  is given; and once the string to sign has been built, \<^verbatim>\<open>validate\<close> returns a
  boolean.
\<close>

lemma validate_exact:
  assumes "generateSignature this params None None = Inr e"
  shows "validate this now params signature None = Inr (signature = e)"
proof -
  from assms obtain s where
    "e = hex_digest (hmac_sha256 (Buffer_from (secret this)) (Buffer_from s))"
    by (auto simp: generateSignature_def split: sum.splits)
  then have a: "list_all ascii e" by (simp add: hex_digest_ascii)
  have "Buffer_from e = Buffer_from signature \<longleftrightarrow> signature = e"
    using Buffer_from_eq_ascii [OF a, of signature] by auto
  moreover have "signature \<noteq> e" if "length (Buffer_from e) \<noteq> length (Buffer_from signature)"
    using that by auto
  ultimately show ?thesis
    using assms by (auto simp: validate_def timingSafeEqual_def)
qed

lemma validate_wrong_length:
  assumes "generateSignature this params None None = Inr e" and "length signature \<noteq> 64"
  shows "validate this now params signature None = Inr False"
proof -
  from assms(1) obtain s where
    "e = hex_digest (hmac_sha256 (Buffer_from (secret this)) (Buffer_from s))"
    by (auto simp: generateSignature_def split: sum.splits)
  then have "length e = 64" by (simp add: length_hex_digest length_hmac_sha256)
  with assms(2) have "signature \<noteq> e" by auto
  then show ?thesis by (simp add: validate_exact [OF assms(1)])
qed

lemma validate_unparseable_timestamp:
  assumes "js_get params (js ''timestamp'') = JStr s" and "s \<noteq> []" and "parseInt s = DNaN"
  shows "validate this now params signature (Some tolerance) = Inr False"
  using assms
  by (simp add: validate_def truthy_def checkTimestamp_def timestamp_number_def isNaN_def)

lemma validate_returns:
  "encodable params \<Longrightarrow> \<exists>b. validate this now params signature tol = Inr b"
  using generateSignature_returns [of params this None None]
  by (auto simp: validate_def split: sum.splits)

lemma validate_error: "validate this now params signature tol = Inl e \<Longrightarrow> e = URIError"
  by (auto simp: validate_def generateSignature_def split: sum.splits if_splits
      dest: signString_error)

lemma validate_fail_closed_after_signing:
  assumes "signString params None None = Inr s"
  shows "\<exists>b. validate this now params signature tol = Inr b"
  using assms by (auto simp: validate_def generateSignature_def split: sum.splits)

section \<open>The signature fields are not signed\<close>

lemma filterParams_skip:
  assumes "k \<in> ex"
  shows "filterParams ex (xs @ (k, v) # ys) = filterParams ex (xs @ ys)"
  using assms by (simp add: filterParams_def)

text \<open>
  Claim C6: an entry under the key \<^verbatim>\<open>signature\<close> or \<^verbatim>\<open>sign\<close>, with any value
  and at any place among the entries, changes neither the signed string nor the
  signature computed with the default exclude set.
\<close>

theorem signature_field_excluded:
  assumes "k = js ''signature'' \<or> k = js ''sign''"
  shows "signString (xs @ (k, v) # ys) timestamp None = signString (xs @ ys) timestamp None \<and>
         generateSignature this (xs @ (k, v) # ys) timestamp None =
         generateSignature this (xs @ ys) timestamp None"
proof -
  from assms have "k \<in> defaultExcludeKeys" by (auto simp: defaultExcludeKeys_def)
  then have "filterParams defaultExcludeKeys (xs @ (k, v) # ys) =
             filterParams defaultExcludeKeys (xs @ ys)"
    by (rule filterParams_skip)
  then have "signString (xs @ (k, v) # ys) timestamp None = signString (xs @ ys) timestamp None"
    by (simp add: signString_def)
  then show ?thesis by (simp add: generateSignature_def)
qed


text \<open>
  The example parameters with \<^verbatim>\<open>signature: "deadbeef"\<close> added give the string and
  the signature of the example parameters.
\<close>

theorem signature_field_excluded_witness:
  "signString (P5 @ [(js ''signature'', JStr (js ''deadbeef''))]) None None =
     Inr (js ''amount=39.99&app_id=A1'') \<and>
   generateSignature demo (P5 @ [(js ''signature'', JStr (js ''deadbeef''))]) None None =
     generateSignature demo P5 None None"
  using signature_field_excluded [of "js ''signature''" P5 "JStr (js ''deadbeef'')" "[]" None demo]
    signString_P5
  by simp

section \<open>Exceptions of \<^verbatim>\<open>validate\<close>\<close>

text \<open>
  Claim C3 says that \<^verbatim>\<open>validate\<close> never throws. The call of
  \<^verbatim>\<open>generateSignature\<close> is outside its \<^verbatim>\<open>try\<close> block, so the
  \<^verbatim>\<open>URIError\<close> that \<^verbatim>\<open>encodeURIComponent\<close> raises for an unpaired surrogate
  reaches the caller: here for the body \<^verbatim>\<open>{"app_id": "A1", "note": "\\ud800"}\<close>.
\<close>

theorem validate_throws:
  "validate demo 1700000000000
     [(js ''app_id'', JStr (js ''A1'')), (js ''note'', JStr [0xD800])] (js ''00'') None
   = Inl URIError"
  by (simp add: validate_def eval_defs)

section \<open>Emptiness filtering\<close>

lemma filterParams_valid_only:
  "filterParams ex (filter (\<lambda>p. isValidValue (snd p)) P) = filterParams ex P"
proof -
  have "fold (\<lambda>(key, v) filteredParams.
          if key \<notin> ex \<and> isValidValue v then js_set filteredParams key v else filteredParams)
          (filter (\<lambda>p. isValidValue (snd p)) P) acc =
        fold (\<lambda>(key, v) filteredParams.
          if key \<notin> ex \<and> isValidValue v then js_set filteredParams key v else filteredParams)
          P acc" for acc
    by (induction P arbitrary: acc) auto
  then show ?thesis by (simp add: filterParams_def)
qed

lemma isValidValue_iff:
  "isValidValue v \<longleftrightarrow> v \<noteq> JNull \<and> v \<noteq> JUndefined \<and> v \<noteq> JStr [] \<and> v \<noteq> JArr [] \<and> v \<noteq> JObj []"
  by (cases v) (auto simp: isValidValue_def)

text \<open>
  What the filter does. A value is dropped as empty exactly when it is \<^verbatim>\<open>null\<close>,
  \<^verbatim>\<open>undefined\<close>, the empty string, an empty array or an object without keys, so the
  number 0, \<^verbatim>\<open>false\<close> and non-empty arrays and objects are not. The signed string is
  that of the parameters without their empty entries. A key survives the filter exactly
  when the parameters have it, it is not excluded, its value is not empty and it is not
  \<^verbatim>\<open>__proto__\<close> (which an assignment to a plain object never creates); a surviving
  key keeps its value. The example parameters give \<^verbatim>\<open>amount=39.99&app_id=A1\<close>.
\<close>

lemma emptiness_filtering:
  "(isValidValue v \<longleftrightarrow>
      v \<noteq> JNull \<and> v \<noteq> JUndefined \<and> v \<noteq> JStr [] \<and> v \<noteq> JArr [] \<and> v \<noteq> JObj []) \<and>
   signString P timestamp excludeKeys =
     signString (filter (\<lambda>p. isValidValue (snd p)) P) timestamp excludeKeys \<and>
   (distinct (map fst P) \<longrightarrow>
      (k \<in> set (map fst (filterParams ex P)) \<longleftrightarrow>
         k \<in> set (map fst P) \<and> k \<notin> ex \<and> k \<noteq> js ''__proto__'' \<and> isValidValue (js_get P k))) \<and>
   (distinct (map fst P) \<and> k \<in> set (map fst (filterParams ex P)) \<longrightarrow>
      js_get (filterParams ex P) k = js_get P k) \<and>
   signString P5 None None = Inr (js ''amount=39.99&app_id=A1'')"
proof (intro conjI impI)
  show "isValidValue v \<longleftrightarrow>
      v \<noteq> JNull \<and> v \<noteq> JUndefined \<and> v \<noteq> JStr [] \<and> v \<noteq> JArr [] \<and> v \<noteq> JObj []"
    by (rule isValidValue_iff)
  show "signString P timestamp excludeKeys =
     signString (filter (\<lambda>p. isValidValue (snd p)) P) timestamp excludeKeys"
    by (simp add: signString_def filterParams_valid_only)
  show "k \<in> set (map fst (filterParams ex P)) \<longleftrightarrow>
         k \<in> set (map fst P) \<and> k \<notin> ex \<and> k \<noteq> js ''__proto__'' \<and> isValidValue (js_get P k)"
    if "distinct (map fst P)"
    using filterParams_key_iff [OF that, of k ex] by (auto simp: kept_def)
  show "js_get (filterParams ex P) k = js_get P k"
    if "distinct (map fst P) \<and> k \<in> set (map fst (filterParams ex P))"
    using that by (intro filterParams_get) simp_all
  show "signString P5 None None = Inr (js ''amount=39.99&app_id=A1'')"
    by (rule signString_P5)
qed

text \<open>
  The example parameters: 0 and \<^verbatim>\<open>false\<close> are kept and \<^verbatim>\<open>{}\<close> is not;
  \<^verbatim>\<open>amount\<close> survives with its value and \<^verbatim>\<open>email\<close> does not.
\<close>

lemma emptiness_filtering_example:
  "isValidValue (JNum (Dec 0 0)) \<and> isValidValue (JBool False) \<and> \<not> isValidValue (JObj []) \<and>
   distinct (map fst P5) \<and>
   js ''amount'' \<in> set (map fst (filterParams defaultExcludeKeys P5)) \<and>
   js ''email'' \<notin> set (map fst (filterParams defaultExcludeKeys P5)) \<and>
   js_get (filterParams defaultExcludeKeys P5) (js ''amount'') = JNum (Dec 3999 (- 2)) \<and>
   signString P5 None None = Inr (js ''amount=39.99&app_id=A1'')"
proof -
  have d: "distinct (map fst P5)" by (simp add: P5_def js_def)
  have a: "js_get P5 (js ''amount'') = JNum (Dec 3999 (- 2))"
    and e: "js_get P5 (js ''email'') = JStr []"
    by (simp_all add: P5_def js_def js_get_def)
  have ka: "js ''amount'' \<in> set (map fst P5)" "js ''amount'' \<notin> defaultExcludeKeys"
    "js ''amount'' \<noteq> js ''__proto__''"
    by (simp_all add: P5_def js_def defaultExcludeKeys_def)
  show ?thesis
    using emptiness_filtering [of "JNum (Dec 0 0)" P5 None None "js ''amount''" defaultExcludeKeys]
      emptiness_filtering [of "JBool False" P5 None None "js ''email''" defaultExcludeKeys]
      emptiness_filtering [of "JObj []" P5 None None "js ''email''" defaultExcludeKeys]
      d a e ka
    by (simp add: isValidValue_def)
qed

text \<open>
  Claim C5 says that the number 0 is retained, and that the keys removed are those with
  an empty value. The filter loop copies an entry with \<^verbatim>\<open>filteredParams[key] = value\<close>
  into a plain object, and for the key \<^verbatim>\<open>__proto__\<close> that assignment runs the setter
  of \<^verbatim>\<open>Object.prototype\<close> instead of creating a property. For the body
  \<^verbatim>\<open>{"app_id": "A1", "__proto__": 0}\<close> the value 0 is not empty and the key is not
  excluded, yet the entry is removed and only \<^verbatim>\<open>app_id=A1\<close> is signed.
\<close>

theorem proto_entry_removed:
  "isValidValue (JNum (Dec 0 0)) \<and> js ''__proto__'' \<notin> defaultExcludeKeys \<and>
   filterParams defaultExcludeKeys
     [(js ''app_id'', JStr (js ''A1'')), (js ''__proto__'', JNum (Dec 0 0))]
   = [(js ''app_id'', JStr (js ''A1''))] \<and>
   signString [(js ''app_id'', JStr (js ''A1'')), (js ''__proto__'', JNum (Dec 0 0))] None None
   = Inr (js ''app_id=A1'')"
  by (simp add: eval_defs)

text \<open>
  \<^verbatim>\<open>_sortObjectKeys\<close> rebuilds nested objects by the same assignment, so a nested
  \<^verbatim>\<open>__proto__\<close> entry is not signed either.
\<close>

lemma nested_proto_entry_removed:
  "signString [(js ''extra'', JObj [(js ''__proto__'', JObj [(js ''x'', JNum (Dec 1 0))])])]
     None None = Inr (js ''extra=%7B%7D'')"
  by (simp add: run_defs)

section \<open>The external timestamp\<close>

text \<open>
  Claim C10: when the parameters have a key \<^verbatim>\<open>timestamp\<close>, signing them with an
  external timestamp \<open>t\<close> gives the string and the signature of the parameters in which
  the value under \<^verbatim>\<open>timestamp\<close> is replaced by \<open>t\<close>, signed without an external
  timestamp: the argument overwrites the value of the map.
\<close>

theorem external_timestamp_overwrites:
  assumes "distinct (map fst P)" and "js ''timestamp'' \<in> set (map fst P)"
  shows "signString P (Some t) None =
           signString (replace_prop (js ''timestamp'') (JNum t) P) None None \<and>
         generateSignature this P (Some t) None =
           generateSignature this (replace_prop (js ''timestamp'') (JNum t) P) None None"
proof -
  let ?ts = "js ''timestamp''"
  let ?P' = "replace_prop ?ts (JNum t) P"
  let ?A = "js_set (filterParams defaultExcludeKeys P) ?ts (JNum t)"
  let ?B = "filterParams defaultExcludeKeys ?P'"
  have ts: "?ts \<noteq> js ''__proto__''" by (simp add: js_def)
  have k: "kept defaultExcludeKeys (?ts, JNum t)"
    by (simp add: kept_def defaultExcludeKeys_def isValidValue_def js_def)
  have d': "distinct (map fst ?P')" using assms(1) by (rule replace_prop_keys_distinct)
  have m': "map_of ?P' = (map_of P)(?ts \<mapsto> JNum t)"
    using assms(2) by (rule map_of_replace_prop)
  have "map_of ?A = map_of ?B"
  proof
    fix x
    show "map_of ?A x = map_of ?B x"
      using ts k
      by (simp add: map_of_js_set map_of_filterParams map_of_kept [OF assms(1)]
          map_of_kept [OF d'] m')
  qed
  moreover have "distinct (map fst ?A)" "distinct (map fst ?B)"
    by (simp_all add: distinct_js_set distinct_filterParams del: set_map)
  ultimately have "buildSignString ?A = buildSignString ?B"
    by (intro buildSignString_map_of)
  then have "signString P (Some t) None = signString ?P' None None"
    by (simp add: signString_def)
  then show ?thesis by (simp add: generateSignature_def)
qed

text \<open>
  The parameters \<^verbatim>\<open>{user_id: 12345, action: "login", timestamp: 1700000000}\<close> signed
  with the external timestamp 1700000600.
\<close>

theorem external_timestamp_overwrites_witness:
  "distinct (map fst P3) \<and> js ''timestamp'' \<in> set (map fst P3) \<and>
   isValidValue (js_get P3 (js ''timestamp'')) \<and>
   replace_prop (js ''timestamp'') (JNum (Dec 1700000600 0)) P3 =
     [(js ''user_id'', JNum (Dec 12345 0)), (js ''action'', JStr (js ''login'')),
      (js ''timestamp'', JNum (Dec 1700000600 0))] \<and>
   signString P3 (Some (Dec 1700000600 0)) None =
     signString (replace_prop (js ''timestamp'') (JNum (Dec 1700000600 0)) P3) None None \<and>
   generateSignature demo P3 (Some (Dec 1700000600 0)) None =
     generateSignature demo (replace_prop (js ''timestamp'') (JNum (Dec 1700000600 0)) P3) None None"
proof -
  have d: "distinct (map fst P3)" and k: "js ''timestamp'' \<in> set (map fst P3)"
    by (simp_all add: P3_def js_def)
  have "isValidValue (js_get P3 (js ''timestamp''))"
    by (simp add: P3_def js_def js_get_def isValidValue_def)
  moreover have "replace_prop (js ''timestamp'') (JNum (Dec 1700000600 0)) P3 =
     [(js ''user_id'', JNum (Dec 12345 0)), (js ''action'', JStr (js ''login'')),
      (js ''timestamp'', JNum (Dec 1700000600 0))]"
    by (simp add: P3_def js_def)
  ultimately show ?thesis
    using external_timestamp_overwrites [OF d k, of "Dec 1700000600 0" demo] d k by simp
qed

section \<open>Order independence\<close>

lemma js_get_Cons: "js_get (p # ps) k = (if k = fst p then snd p else js_get ps k)"
  by (cases p) (simp add: js_get_def)

lemma sortObjectKeys_sem_eq_aux:
  "sem_eq v w \<longrightarrow> sortObjectKeys v = sortObjectKeys w"
  "sem_eq_list xs ys \<longrightarrow> map sortObjectKeys xs = map sortObjectKeys ys"
  "sem_eq_props ps kvs' \<longrightarrow>
      (\<forall>k \<in> set (map fst ps). sortObjectKeys (js_get ps k) = sortObjectKeys (js_get kvs' k))"
proof (induction v w and xs ys and ps kvs' rule: sem_eq_sem_eq_list_sem_eq_props.induct)
  case (1 xs w)
  then show ?case by (cases w) auto
next
  case (2 kvs w)
  show ?case
  proof
    assume a: "sem_eq (JObj kvs) w"
    then obtain kvs' where w: "w = JObj kvs'" by (cases w) auto
    from a w have d: "distinct (map fst kvs)" "distinct (map fst kvs')"
      and s: "set (map fst kvs) = set (map fst kvs')" and p: "sem_eq_props kvs kvs'"
      by auto
    have keys: "sort (map fst kvs) = sort (map fst kvs')"
      using d s by (rule sort_keys_eq)
    have vals: "sortObjectKeys (js_get kvs k) = sortObjectKeys (js_get kvs' k)"
      if "k \<in> set (map fst kvs)" for k
      using "2.IH" [OF w] p that by blast
    have "fold (\<lambda>key result. js_set result key (sortObjectKeys (js_get kvs key)))
            (sort (map fst kvs)) [] =
          fold (\<lambda>key result. js_set result key (sortObjectKeys (js_get kvs' key)))
            (sort (map fst kvs)) []"
      by (rule fold_cong) (simp_all add: vals del: set_map)
    with keys w show "sortObjectKeys (JObj kvs) = sortObjectKeys w" by simp
  qed
next
  case (9 x xs ys)
  then show ?case by (cases ys) auto
next
  case (11 p ps kvs')
  then show ?case by (auto simp: js_get_Cons)
qed auto

lemma sortObjectKeys_sem_eq: "sem_eq v w \<Longrightarrow> sortObjectKeys v = sortObjectKeys w"
  using sortObjectKeys_sem_eq_aux(1) by blast

lemma sem_eq_propsD:
  "sem_eq_props ps kvs' \<Longrightarrow> k \<in> set (map fst ps) \<Longrightarrow> sem_eq (js_get ps k) (js_get kvs' k)"
proof (induction ps)
  case Nil
  then show ?case by simp
next
  case (Cons p ps)
  show ?case
  proof (cases "k = fst p")
    case True
    with Cons.prems show ?thesis by (simp add: js_get_Cons)
  next
    case False
    with Cons.prems have "k \<in> set (map fst ps)" "sem_eq_props ps kvs'" by auto
    then have "sem_eq (js_get ps k) (js_get kvs' k)" by (rule Cons.IH [rotated])
    with False show ?thesis by (simp add: js_get_Cons)
  qed
qed

lemma sem_eq_kind: "sem_eq v w \<Longrightarrow> structured w = structured v"
  by (cases v; cases w; simp add: structured_def)

lemma sem_eq_scalar: "sem_eq v w \<Longrightarrow> \<not> structured v \<Longrightarrow> w = v"
  by (cases v; simp add: structured_def)

lemma normalizeValue_sem_eq:
  assumes "sem_eq v w"
  shows "normalizeValue v = normalizeValue w"
proof (cases "structured v")
  case True
  with assms have "structured w" by (simp add: sem_eq_kind)
  with True sortObjectKeys_sem_eq [OF assms] show ?thesis
    by (simp add: normalizeValue_def structured_def)
next
  case False
  with assms have "w = v" by (rule sem_eq_scalar)
  then show ?thesis by simp
qed

lemma isValidValue_sem_eq:
  assumes "sem_eq v w"
  shows "isValidValue v = isValidValue w"
proof (cases v)
  case (JArr xs)
  with assms obtain ys where w: "w = JArr ys" and l: "sem_eq_list xs ys" by (cases w) auto
  from l have "xs = [] \<longleftrightarrow> ys = []" by (cases xs; cases ys) auto
  with JArr w show ?thesis by (simp add: isValidValue_def)
next
  case (JObj kvs)
  with assms obtain kvs' where w: "w = JObj kvs'"
    and s: "set (map fst kvs) = set (map fst kvs')" by (cases w) auto
  from s have "kvs = [] \<longleftrightarrow> kvs' = []" by (cases kvs; cases kvs') auto
  with JObj w show ?thesis by (simp add: isValidValue_def)
next
  case JNull
  with assms show ?thesis by simp
next
  case JUndefined
  with assms show ?thesis by simp
next
  case (JBool b)
  with assms show ?thesis by simp
next
  case (JNum x)
  with assms show ?thesis by simp
next
  case (JStr s)
  with assms show ?thesis by simp
qed

lemma same_signed_filterParams:
  assumes "sem_eq (JObj P) (JObj P')"
  shows "same_signed (filterParams ex P) (filterParams ex P')"
proof -
  from assms have d: "distinct (map fst P)" "distinct (map fst P')"
    and s: "set (map fst P) = set (map fst P')" and p: "sem_eq_props P P'"
    by auto
  have rel: "sem_eq (js_get P k) (js_get P' k)" if "k \<in> set (map fst P)" for k
    using p that by (rule sem_eq_propsD)
  have kept_eq: "kept ex (k, js_get P k) = kept ex (k, js_get P' k)" if "k \<in> set (map fst P)" for k
    using isValidValue_sem_eq [OF rel [OF that]] by (simp add: kept_def)
  have keys: "set (map fst (filterParams ex P)) = set (map fst (filterParams ex P'))"
  proof (rule set_eqI)
    fix k
    show "k \<in> set (map fst (filterParams ex P)) \<longleftrightarrow> k \<in> set (map fst (filterParams ex P'))"
      unfolding filterParams_key_iff [OF d(1)] filterParams_key_iff [OF d(2)]
      using s kept_eq [of k] by blast
  qed
  have vals: "normalizeValue (js_get (filterParams ex P) k) =
              normalizeValue (js_get (filterParams ex P') k)"
    if k: "k \<in> set (map fst (filterParams ex P))" for k
  proof -
    from k keys have k': "k \<in> set (map fst (filterParams ex P'))" by blast
    from k d(1) have "k \<in> set (map fst P)" by (simp add: filterParams_key_iff del: set_map)
    then have "normalizeValue (js_get P k) = normalizeValue (js_get P' k)"
      by (intro normalizeValue_sem_eq rel)
    then show ?thesis
      by (simp only: filterParams_get [OF d(1) k] filterParams_get [OF d(2) k'])
  qed
  show ?thesis
    unfolding same_signed_def using keys vals by (simp add: distinct_filterParams del: set_map)
qed

text \<open>
  Claim C4: two parameter objects that are semantically equal, whatever the order of
  their properties at the top level and inside nested objects at any depth, have the same
  signed string and the same signature, for every secret, external timestamp and exclude
  set (and when one of the two calls throws, so does the other).
\<close>

theorem order_independence:
  assumes "sem_eq (JObj P) (JObj P')"
  shows "signString P timestamp excludeKeys = signString P' timestamp excludeKeys \<and>
         generateSignature this P timestamp excludeKeys =
         generateSignature this P' timestamp excludeKeys"
proof -
  define ex where "ex = (case excludeKeys of None \<Rightarrow> defaultExcludeKeys | Some ks \<Rightarrow> ks)"
  have f: "same_signed (filterParams ex P) (filterParams ex P')"
    using assms by (rule same_signed_filterParams)
  have "signString P timestamp excludeKeys = signString P' timestamp excludeKeys"
  proof (cases timestamp)
    case None
    with f show ?thesis by (simp add: signString_def ex_def same_signed_build)
  next
    case (Some t)
    from f have "same_signed (js_set (filterParams ex P) (js ''timestamp'') (JNum t))
                   (js_set (filterParams ex P') (js ''timestamp'') (JNum t))"
      by (rule same_signed_js_set)
    with Some show ?thesis by (simp add: signString_def ex_def same_signed_build)
  qed
  then show ?thesis by (simp add: generateSignature_def)
qed

lemma Pa_Pb: "sem_eq (JObj Pa) (JObj Pb)"
  by (auto simp: Pa_def Pb_def js_def js_get_def)

text \<open>The two orderings of the example object are signed alike.\<close>

theorem order_independence_witness:
  "sem_eq (JObj Pa) (JObj Pb) \<and> signString Pa None None = signString Pb None None \<and>
   generateSignature demo Pa None None = generateSignature demo Pb None None"
  using order_independence [OF Pa_Pb, of None None demo] Pa_Pb by simp

section \<open>The replay window\<close>

text \<open>The verdict of \<^verbatim>\<open>validate\<close> on the signature of the parameters themselves.\<close>

lemma validate_matching:
  "generateSignature this params None None = Inr sig \<Longrightarrow>
   validate this now params sig tol =
     Inr (case tol of None \<Rightarrow> True
          | Some tolerance \<Rightarrow>
              \<not> (truthy (js_get params (js ''timestamp'')) \<and>
                 \<not> checkTimestamp now (js_get params (js ''timestamp'')) tolerance))"
  by (cases tol) (simp_all add: validate_def timingSafeEqual_def)

text \<open>
  Integers up to \<open>2 ^ 53\<close> are doubles, and the arithmetic of the check is exact on
  them.
\<close>

lemma round_ratio_int:
  assumes "\<bar>n\<bar> \<le> 2 ^ 53"
  shows "round_ratio n 1 = Bin n 0" and "round_ratio n (Suc 0) = Bin n 0"
  using assms by (auto simp: round_ratio_def round_pos_def)

lemma to_double_int: "\<bar>t\<bar> \<le> 2 ^ 53 \<Longrightarrow> to_double (Dec t 0) = Bin t 0"
  by (simp add: to_double_def round_ratio_int)

lemma num_sub_int: "\<bar>a - b\<bar> \<le> 2 ^ 53 \<Longrightarrow> num_sub (Bin a 0) (Bin b 0) = Bin (a - b) 0"
  by (simp add: num_sub_def round_ratio_int)

lemma num_le_int: "num_le (Bin a 0) (Bin b 0) \<longleftrightarrow> a \<le> b"
  by (simp add: num_le_def)

lemma num_lt_int: "num_lt (Bin a 0) (Bin b 0) \<longleftrightarrow> a < b"
  by (simp add: num_lt_def)

lemma Math_abs_int: "Math_abs (Bin a 0) = Bin \<bar>a\<bar> 0"
  by (simp add: Math_abs_def)

lemma num_lt_not_le: "num_lt y x \<Longrightarrow> \<not> num_le x y"
  by (cases x; cases y) (auto simp: num_lt_def num_le_def Let_def min.commute)

lemma checkTimestamp_int:
  assumes "\<bar>t\<bar> \<le> 2 ^ 52" and "\<bar>now div 1000\<bar> \<le> 2 ^ 52" and "\<bar>tol\<bar> \<le> 2 ^ 53"
  shows "checkTimestamp now (JNum (Dec t 0)) (Dec tol 0) \<longleftrightarrow> \<bar>now div 1000 - t\<bar> \<le> tol"
proof -
  from assms have "\<bar>t\<bar> \<le> 2 ^ 53" "\<bar>now div 1000\<bar> \<le> 2 ^ 53" "\<bar>now div 1000 - t\<bar> \<le> 2 ^ 53"
    by simp_all
  with assms(3) show ?thesis
    by (simp add: checkTimestamp_def timestamp_number_def currentTime_def isNaN_def
        to_double_int round_ratio_int num_sub_int Math_abs_int num_le_int)
qed

text \<open>
  Beyond \<open>2 ^ 53\<close> the check rounds as the doubles of the source do: the string
  \<^verbatim>\<open>9007199254740993\<close> is read as \<open>2 ^ 53\<close>, whose distance from the clock
  1700000000 is the tolerance 9007197554740992, not one more.
\<close>

lemmas double_defs = to_double_def round_ratio_def round_pos_def floor_log2_def bits.simps
  num_sub_def num_le_def num_lt_def Math_abs_def isNaN_def Let_def

lemma checkTimestamp_rounds:
  "checkTimestamp 1700000000000 (JStr (js ''9007199254740993'')) (Dec 9007197554740992 0)"
  by (simp add: checkTimestamp_def timestamp_number_def currentTime_def parseInt_def js_def
      js_whitespace_def is_digit_def digits_value_def double_defs)

text \<open>
  Claim C2 says that the gate applies whenever the key \<^verbatim>\<open>timestamp\<close> is present.
  The source tests \<^verbatim>\<open>params.timestamp\<close> for truthiness, so a timestamp of 0 skips the
  check: at the clock 1700000000 s with tolerance 300, the parameters
  \<^verbatim>\<open>{timestamp: 0}\<close> validate against their signature, although the timestamp is
  1700000000 seconds old.
\<close>

theorem zero_timestamp_skips_gate:
  "js_get P0 (js ''timestamp'') = JNum (Dec 0 0) \<and>
   (300 :: int) < \<bar>1700000000000 div 1000 - 0\<bar> \<and>
   generateSignature demo P0 None None = Inr sigP0 \<and>
   validate demo 1700000000000 P0 sigP0 (Some (Dec 300 0)) = Inr True"
proof -
  have "js_get P0 (js ''timestamp'') = JNum (Dec 0 0)"
    by (simp add: P0_def js_get_def)
  then show ?thesis
    using generateSignature_P0 validate_matching [OF generateSignature_P0]
    by (simp add: truthy_def to_double_int)
qed

text \<open>
  Claim C2 for a truthy timestamp. Let \<open>x\<close> be the number that the source reads from
  \<^verbatim>\<open>params.timestamp\<close> (the number itself, or \<^verbatim>\<open>parseInt\<close> of its string). When
  \<^verbatim>\<open>params.timestamp\<close> is truthy and the distance \<^verbatim>\<open>Math.abs(currentTime - x)\<close>,
  computed on doubles as the source does, exceeds the tolerance, \<^verbatim>\<open>validate\<close> returns
  \<^verbatim>\<open>false\<close> for every supplied signature. The expected signature is not computed: the
  result is \<^verbatim>\<open>false\<close> also for parameters on which \<^verbatim>\<open>generateSignature\<close> throws.
  In particular, for an integer timestamp other than 0, an integer tolerance and a clock
  all within \<open>2 ^ 52\<close> seconds, the distance is the integer \<open>\<bar>now div 1000 - t\<bar>\<close>.
\<close>

theorem replay_window_gate:
  "(truthy (js_get params (js ''timestamp'')) \<and>
    timestamp_number (js_get params (js ''timestamp'')) = Inr x \<and>
    num_lt (to_double tolerance) (Math_abs (num_sub (currentTime now) x)) \<longrightarrow>
      validate this now params signature (Some tolerance) = Inr False) \<and>
   (js_get params (js ''timestamp'') = JNum (Dec t 0) \<and> t \<noteq> 0 \<and>
    \<bar>t\<bar> \<le> 2 ^ 52 \<and> \<bar>now div 1000\<bar> \<le> 2 ^ 52 \<and> \<bar>tol\<bar> \<le> 2 ^ 53 \<and> tol < \<bar>now div 1000 - t\<bar> \<longrightarrow>
      validate this now params signature (Some (Dec tol 0)) = Inr False)"
proof (intro conjI impI)
  assume a: "truthy (js_get params (js ''timestamp'')) \<and>
    timestamp_number (js_get params (js ''timestamp'')) = Inr x \<and>
    num_lt (to_double tolerance) (Math_abs (num_sub (currentTime now) x))"
  then have "\<not> num_le (Math_abs (num_sub (currentTime now) x)) (to_double tolerance)"
    by (intro num_lt_not_le) simp
  with a have "\<not> checkTimestamp now (js_get params (js ''timestamp'')) tolerance"
    by (simp add: checkTimestamp_def)
  with a show "validate this now params signature (Some tolerance) = Inr False"
    by (simp add: validate_def)
next
  assume b: "js_get params (js ''timestamp'') = JNum (Dec t 0) \<and> t \<noteq> 0 \<and>
    \<bar>t\<bar> \<le> 2 ^ 52 \<and> \<bar>now div 1000\<bar> \<le> 2 ^ 52 \<and> \<bar>tol\<bar> \<le> 2 ^ 53 \<and> tol < \<bar>now div 1000 - t\<bar>"
  then have "\<not> checkTimestamp now (JNum (Dec t 0)) (Dec tol 0)"
    by (simp add: checkTimestamp_int)
  moreover from b have "to_double (Dec t 0) = Bin t 0"
    by (intro to_double_int) simp
  ultimately show "validate this now params signature (Some (Dec tol 0)) = Inr False"
    using b by (simp add: validate_def truthy_def)
qed

text \<open>
  Tolerance 300 and a timestamp 600 seconds before the clock: \<^verbatim>\<open>false\<close>, for
  parameters that cannot even be signed; and the same verdict for the timestamp
  1699999400.5 with the tolerance 599.25, and for a timestamp given as a string.
\<close>

theorem replay_window_gate_witness:
  "js_get Pw (js ''timestamp'') = JNum (Dec (1700000000000 div 1000 - 600) 0) \<and>
   generateSignature demo Pw None None = Inl URIError \<and>
   validate demo 1700000000000 Pw (js ''00'') (Some (Dec 300 0)) = Inr False \<and>
   validate demo 1700000000000 [(js ''timestamp'', JNum (Dec 16999994005 (- 1)))] sigP0
     (Some (Dec 59925 (- 2))) = Inr False \<and>
   validate demo 1700000000000 [(js ''timestamp'', JStr (js ''1699999400''))] sigP0
     (Some (Dec 300 0)) = Inr False"
proof -
  have g: "js_get Pw (js ''timestamp'') = JNum (Dec 1699999400 0)"
    by (simp add: Pw_def js_get_def)
  have e: "generateSignature demo Pw None None = Inl URIError"
    by (simp add: Pw_def eval_defs)
  have f: "js_get [(js ''timestamp'', JNum (Dec 16999994005 (- 1)))] (js ''timestamp'') =
           JNum (Dec 16999994005 (- 1))"
    by (simp add: js_get_def)
  have fx: "to_double (Dec 16999994005 (- 1)) = Bin 7130314285514752 (- 22)"
    by (simp add: double_defs)
  have ft: "to_double (Dec 59925 (- 2)) = Bin 5271058743558144 (- 43)"
    by (simp add: double_defs)
  have fd: "num_lt (Bin 5271058743558144 (- 43))
              (Math_abs (num_sub (currentTime 1700000000000) (Bin 7130314285514752 (- 22))))"
    by (simp add: currentTime_def double_defs)
  have s: "js_get [(js ''timestamp'', JStr (js ''1699999400''))] (js ''timestamp'') =
           JStr (js ''1699999400'')"
    by (simp add: js_get_def)
  have p: "parseInt (js ''1699999400'') = Bin 1699999400 0"
    by (simp add: parseInt_def js_def js_whitespace_def is_digit_def digits_value_def
        round_ratio_int)
  have sd: "num_lt (to_double (Dec 300 0))
              (Math_abs (num_sub (currentTime 1700000000000) (Bin 1699999400 0)))"
    by (simp add: currentTime_def to_double_int round_ratio_int num_sub_int Math_abs_int
        num_lt_int)
  show ?thesis
    using replay_window_gate [of Pw _ _ 1700000000000 demo "js ''00''" 1699999400 300]
      replay_window_gate [of "[(js ''timestamp'', JNum (Dec 16999994005 (- 1)))]"
        "Bin 7130314285514752 (- 22)" "Dec 59925 (- 2)" 1700000000000 demo sigP0]
      replay_window_gate [of "[(js ''timestamp'', JStr (js ''1699999400''))]"
        "Bin 1699999400 0" "Dec 300 0" 1700000000000 demo sigP0]
      g e f fx ft fd s p sd
    by (simp add: truthy_def timestamp_number_def js_def to_double_int)
qed

section \<open>Determinism\<close>

lemma checkTimestamp_clock:
  "now div 1000 = now' div 1000 \<Longrightarrow> checkTimestamp now v tol = checkTimestamp now' v tol"
  by (simp only: checkTimestamp_def currentTime_def)

text \<open>
  Claim C9 says that the verdict of \<^verbatim>\<open>validate\<close> depends on its arguments only. It
  also depends on the clock: the parameters of the timestamp example, their signature
  and tolerance 300 give \<^verbatim>\<open>true\<close> at the time of the timestamp and \<^verbatim>\<open>false\<close>
  ten minutes later.
\<close>

theorem validate_depends_on_clock:
  "generateSignature demo P3 None None = Inr sigP3 \<and>
   validate demo 1700000000000 P3 sigP3 (Some (Dec 300 0)) = Inr True \<and>
   validate demo 1700000600000 P3 sigP3 (Some (Dec 300 0)) = Inr False"
proof -
  have "js_get P3 (js ''timestamp'') = JNum (Dec 1700000000 0)"
    by (simp add: P3_def js_get_def js_def)
  then show ?thesis
    using generateSignature_P3 validate_matching [OF generateSignature_P3]
    by (simp add: truthy_def to_double_int checkTimestamp_int)
qed

text \<open>
  Claim C9 as the code has it. \<^verbatim>\<open>generateSignature\<close> is a function of the secret and
  its arguments, and \<^verbatim>\<open>validate\<close> of the secret, its arguments and the clock. The
  clock does not matter when there is no tolerance, nor when \<^verbatim>\<open>params.timestamp\<close> is
  falsy or absent, and otherwise only through the current second.
\<close>

theorem clock_independence:
  "validate this now params signature None = validate this now' params signature None \<and>
   (\<not> truthy (js_get params (js ''timestamp'')) \<longrightarrow>
      validate this now params signature tol = validate this now' params signature tol) \<and>
   (now div 1000 = now' div 1000 \<longrightarrow>
      validate this now params signature tol = validate this now' params signature tol)"
proof (intro conjI impI)
  show "validate this now params signature None = validate this now' params signature None"
    by (simp add: validate_def)
  show "validate this now params signature tol = validate this now' params signature tol"
    if "\<not> truthy (js_get params (js ''timestamp''))"
    using that by (cases tol) (simp_all add: validate_def)
  show "validate this now params signature tol = validate this now' params signature tol"
    if "now div 1000 = now' div 1000"
    using checkTimestamp_clock [OF that] by (cases tol) (simp_all add: validate_def)
qed

text \<open>
  The verdict is the same at both clocks for the parameters with timestamp 0, within one
  second for the timestamp example, and without a tolerance.
\<close>

theorem clock_independence_witness:
  "\<not> truthy (js_get P0 (js ''timestamp'')) \<and>
   validate demo 1700000000000 P0 sigP0 (Some (Dec 300 0)) =
   validate demo 1700000600000 P0 sigP0 (Some (Dec 300 0)) \<and>
   (1700000000000 :: int) div 1000 = 1700000000999 div 1000 \<and>
   validate demo 1700000000000 P3 sigP3 (Some (Dec 300 0)) =
   validate demo 1700000000999 P3 sigP3 (Some (Dec 300 0)) \<and>
   validate demo 1700000000000 P3 sigP3 None = validate demo 1700000600000 P3 sigP3 None"
proof -
  have "\<not> truthy (js_get P0 (js ''timestamp''))"
    by (simp add: P0_def js_get_def truthy_def to_double_int)
  then show ?thesis
    using clock_independence [of demo 1700000000000 P0 sigP0 1700000600000 "Some (Dec 300 0)"]
      clock_independence [of demo 1700000000000 P3 sigP3 1700000000999 "Some (Dec 300 0)"]
      clock_independence [of demo 1700000000000 P3 sigP3 1700000600000 None]
    by simp
qed

end
